theory Spec2Isabelle
  imports Main
begin

section \<open>The resilient socket client of src/utils/socket.ts\<close>

text \<open>
  The class \<open>SocketClient\<close> wraps a browser \<open>WebSocket\<close>, a heartbeat interval timer and a
  reconnect timeout timer. It is embedded with explicit state passing: one record holds the
  private fields of the class together with the part of the browser the class acts on (the
  sockets it created, the live timers, the frames handed to the network, the console and the
  subscriber invocations). Whatever the class cannot decide itself is a parameter: the result
  of \<open>JSON.parse\<close>, whether \<open>new WebSocket\<close> throws, and whether a subscriber throws.

  JavaScript numbers are modelled as \<open>int\<close> (no NaN, no fractions), a subscriber as a natural
  number naming the function object, and a subscriber is assumed not to call back into the
  client while it runs.
\<close>

subsection \<open>Values and the browser side\<close>

datatype ready_state = CONNECTING | OPEN | CLOSING | CLOSED

text \<open>What \<open>send\<close> accepts and what a message event carries in \<open>event.data\<close>.\<close>

datatype payload = Text string | Binary "nat list"

text \<open>The JavaScript values a message subscriber can be handed.\<close>

datatype jsval =
    VNull
  | VBool bool
  | VNum int
  | VStr string
  | VArr "jsval list"
  | VObj "(string \<times> jsval) list"
  | VBin "nat list"

fun rawValue :: "payload \<Rightarrow> jsval" where
  "rawValue (Text s) = VStr s"
| "rawValue (Binary b) = VBin b"

text \<open>One invocation of a subscriber, with the argument it is handed.\<close>

datatype call =
    MessageCall nat jsval
  | OpenCall nat
  | CloseCall nat
  | ErrorCall nat

text \<open>The console lines of the class, named by what they report.\<close>

datatype console_entry =
    WarnAlreadyConnected
  | ErrorConnectFailed
  | WarnNotConnected
  | LogConnected
  | LogClosed
  | ErrorSocket
  | ErrorReconnectLimit
  | LogReconnecting int

datatype completion = Normal | Throw

record transport =
  readyState :: ready_state
  callbacksBound :: bool

text \<open>
  The parameters: \<open>jsonParse\<close> is \<open>JSON.parse\<close> on a string (\<open>None\<close> when it throws),
  \<open>raises c\<close> tells whether the subscriber invocation \<open>c\<close> throws, and \<open>ctorThrows\<close> whether
  \<open>new WebSocket(url, protocols)\<close> throws.
\<close>

record env =
  jsonParse :: "string \<Rightarrow> jsval option"
  raises :: "call \<Rightarrow> bool"
  ctorThrows :: "string \<Rightarrow> string list option \<Rightarrow> bool"

record SocketOptions =
  opt_url :: string
  opt_heartbeatInterval :: "int option"
  opt_reconnectInterval :: "int option"
  opt_reconnectAttempts :: "int option"
  opt_protocols :: "string list option"

text \<open>
  The fields of the class (\<open>ws\<close> to \<open>errorHandlers\<close>; a \<open>Set\<close> is the list of its elements
  in insertion order) and the browser: \<open>sockets\<close> are the \<open>WebSocket\<close> objects created so far,
  \<open>intervals\<close> and \<open>timeouts\<close> the identifiers of the live \<open>setInterval\<close> and \<open>setTimeout\<close>
  timers, \<open>nextTimer\<close> the next timer identifier (identifiers are positive and never reused),
  \<open>sent\<close> the frames handed to the network with the socket they went through, \<open>calls\<close> the
  subscriber invocations made so far.
\<close>

record state =
  ws :: "nat option"
  url :: string
  protocols :: "string list option"
  heartbeatInterval :: int
  reconnectInterval :: int
  reconnectAttempts :: int
  currentReconnectAttempts :: int
  heartbeatTimer :: "nat option"
  reconnectTimer :: "nat option"
  isManualClose :: bool
  messageHandlers :: "nat list"
  openHandlers :: "nat list"
  closeHandlers :: "nat list"
  errorHandlers :: "nat list"
  sockets :: "nat \<Rightarrow> transport option"
  nextSocket :: nat
  intervals :: "nat set"
  timeouts :: "nat set"
  nextTimer :: nat
  sent :: "(nat \<times> payload) list"
  console :: "console_entry list"
  calls :: "call list"

subsection \<open>Constructor\<close>

text \<open>\<open>options.x || d\<close>: the default is taken when the field is absent and also when it is 0.\<close>

definition orDefault :: "int option \<Rightarrow> int \<Rightarrow> int" where
  "orDefault v d = (case v of None \<Rightarrow> d | Some n \<Rightarrow> if n = 0 then d else n)"

text \<open>\<open>new SocketClient(options)\<close>, in a page that has no socket and no timer yet.\<close>

definition SocketClient :: "SocketOptions \<Rightarrow> state" where
  "SocketClient options =
     \<lparr> ws = None,
       url = opt_url options,
       protocols = opt_protocols options,
       heartbeatInterval = orDefault (opt_heartbeatInterval options) 30000,
       reconnectInterval = orDefault (opt_reconnectInterval options) 5000,
       reconnectAttempts = orDefault (opt_reconnectAttempts options) 5,
       currentReconnectAttempts = 0,
       heartbeatTimer = None,
       reconnectTimer = None,
       isManualClose = False,
       messageHandlers = [],
       openHandlers = [],
       closeHandlers = [],
       errorHandlers = [],
       sockets = (\<lambda>w. None),
       nextSocket = 0,
       intervals = {},
       timeouts = {},
       nextTimer = 1,
       sent = [],
       console = [],
       calls = [] \<rparr>"

subsection \<open>The browser's WebSocket methods\<close>

text \<open>\<open>this.ws?.readyState === WebSocket.OPEN\<close>\<close>

definition wsOpen :: "state \<Rightarrow> bool" where
  "wsOpen s =
     (case ws s of
        None \<Rightarrow> False
      | Some w \<Rightarrow> (case sockets s w of None \<Rightarrow> False | Some t \<Rightarrow> readyState t = OPEN))"

text \<open>
  \<open>WebSocket.send\<close>: throws while the socket is still connecting, transmits when it is open,
  and discards the data silently once it is closing or closed.
\<close>

definition wsSend :: "nat \<Rightarrow> payload \<Rightarrow> state \<Rightarrow> completion \<times> state" where
  "wsSend w d s =
     (case sockets s w of
        None \<Rightarrow> (Throw, s)
      | Some t \<Rightarrow>
          (case readyState t of
             CONNECTING \<Rightarrow> (Throw, s)
           | OPEN \<Rightarrow> (Normal, s\<lparr>sent := sent s @ [(w, d)]\<rparr>)
           | CLOSING \<Rightarrow> (Normal, s)
           | CLOSED \<Rightarrow> (Normal, s)))"

text \<open>\<open>WebSocket.close()\<close>: a socket that is not yet closing or closed starts closing.\<close>

definition wsClose :: "nat \<Rightarrow> state \<Rightarrow> state" where
  "wsClose w s =
     (case sockets s w of
        None \<Rightarrow> s
      | Some t \<Rightarrow>
          if readyState t = CLOSING \<or> readyState t = CLOSED then s
          else s\<lparr>sockets := (sockets s)(w := Some (t\<lparr>readyState := CLOSING\<rparr>))\<rparr>)"

definition setReadyState :: "nat \<Rightarrow> ready_state \<Rightarrow> state \<Rightarrow> state" where
  "setReadyState w r s =
     (case sockets s w of
        None \<Rightarrow> s
      | Some t \<Rightarrow> s\<lparr>sockets := (sockets s)(w := Some (t\<lparr>readyState := r\<rparr>))\<rparr>)"

definition logConsole :: "console_entry \<Rightarrow> state \<Rightarrow> state" where
  "logConsole c s = s\<lparr>console := console s @ [c]\<rparr>"

subsection \<open>Timers\<close>

text \<open>
  \<open>if (this.heartbeatTimer)\<close> is a truthiness test: \<open>null\<close> and the number 0 fail it.
\<close>

definition stopHeartbeat :: "state \<Rightarrow> state" where
  "stopHeartbeat s =
     (case heartbeatTimer s of
        None \<Rightarrow> s
      | Some t \<Rightarrow>
          if t = 0 then s
          else s\<lparr>intervals := intervals s - {t}, heartbeatTimer := None\<rparr>)"

definition startHeartbeat :: "state \<Rightarrow> state" where
  "startHeartbeat s =
     (let s1 = stopHeartbeat s; t = nextTimer s1
      in s1\<lparr>intervals := insert t (intervals s1), nextTimer := Suc t,
             heartbeatTimer := Some t\<rparr>)"

definition stopReconnect :: "state \<Rightarrow> state" where
  "stopReconnect s =
     (case reconnectTimer s of
        None \<Rightarrow> s
      | Some t \<Rightarrow>
          if t = 0 then s
          else s\<lparr>timeouts := timeouts s - {t}, reconnectTimer := None\<rparr>)"

definition reconnect :: "state \<Rightarrow> state" where
  "reconnect s =
     (if currentReconnectAttempts s \<ge> reconnectAttempts s
      then logConsole ErrorReconnectLimit s
      else
        (let s1 = s\<lparr>currentReconnectAttempts := currentReconnectAttempts s + 1\<rparr>;
             s2 = logConsole (LogReconnecting (currentReconnectAttempts s1)) s1;
             t = nextTimer s2
         in s2\<lparr>timeouts := insert t (timeouts s2), nextTimer := Suc t,
                reconnectTimer := Some t\<rparr>))"

subsection \<open>Public methods\<close>

definition connect :: "env \<Rightarrow> state \<Rightarrow> state" where
  "connect e s =
     (if wsOpen s then logConsole WarnAlreadyConnected s
      else if ctorThrows e (url s) (protocols s)
      then reconnect (logConsole ErrorConnectFailed s)
      else
        (let w = nextSocket s
         in s\<lparr>sockets := (sockets s)(w := Some \<lparr>readyState = CONNECTING, callbacksBound = True\<rparr>),
               nextSocket := Suc w,
               ws := Some w\<rparr>))"

definition send :: "payload \<Rightarrow> state \<Rightarrow> completion \<times> state" where
  "send d s =
     (if wsOpen s
      then (case ws s of None \<Rightarrow> (Throw, s) | Some w \<Rightarrow> wsSend w d s)
      else (Normal, logConsole WarnNotConnected s))"

definition close :: "state \<Rightarrow> state" where
  "close s =
     (let s1 = stopReconnect (stopHeartbeat (s\<lparr>isManualClose := True\<rparr>))
      in case ws s1 of
           None \<Rightarrow> s1
         | Some w \<Rightarrow> (wsClose w s1)\<lparr>ws := None\<rparr>)"

text \<open>\<open>Set.add\<close> and \<open>Set.delete\<close> on a set kept in insertion order.\<close>

definition setAdd :: "nat \<Rightarrow> nat list \<Rightarrow> nat list" where
  "setAdd h hs = (if h \<in> set hs then hs else hs @ [h])"

definition setDelete :: "nat \<Rightarrow> nat list \<Rightarrow> nat list" where
  "setDelete h hs = removeAll h hs"

definition onMessage :: "nat \<Rightarrow> state \<Rightarrow> state" where
  "onMessage h s = s\<lparr>messageHandlers := setAdd h (messageHandlers s)\<rparr>"

definition onOpen :: "nat \<Rightarrow> state \<Rightarrow> state" where
  "onOpen h s = s\<lparr>openHandlers := setAdd h (openHandlers s)\<rparr>"

definition onClose :: "nat \<Rightarrow> state \<Rightarrow> state" where
  "onClose h s = s\<lparr>closeHandlers := setAdd h (closeHandlers s)\<rparr>"

definition onError :: "nat \<Rightarrow> state \<Rightarrow> state" where
  "onError h s = s\<lparr>errorHandlers := setAdd h (errorHandlers s)\<rparr>"

text \<open>The functions that \<open>onMessage\<close>, \<open>onOpen\<close>, \<open>onClose\<close> and \<open>onError\<close> return.\<close>

definition offMessage :: "nat \<Rightarrow> state \<Rightarrow> state" where
  "offMessage h s = s\<lparr>messageHandlers := setDelete h (messageHandlers s)\<rparr>"

definition offOpen :: "nat \<Rightarrow> state \<Rightarrow> state" where
  "offOpen h s = s\<lparr>openHandlers := setDelete h (openHandlers s)\<rparr>"

definition offClose :: "nat \<Rightarrow> state \<Rightarrow> state" where
  "offClose h s = s\<lparr>closeHandlers := setDelete h (closeHandlers s)\<rparr>"

definition offError :: "nat \<Rightarrow> state \<Rightarrow> state" where
  "offError h s = s\<lparr>errorHandlers := setDelete h (errorHandlers s)\<rparr>"

definition getReadyState :: "state \<Rightarrow> ready_state" where
  "getReadyState s =
     (case ws s of
        None \<Rightarrow> CLOSED
      | Some w \<Rightarrow> (case sockets s w of None \<Rightarrow> CLOSED | Some t \<Rightarrow> readyState t))"

subsection \<open>Event handlers\<close>

text \<open>
  \<open>handlers.forEach(handler => handler(x))\<close>, given as the list of invocations to make: each
  is made in turn, and the first one that throws ends the loop with its exception.
\<close>

fun forEach :: "env \<Rightarrow> call list \<Rightarrow> state \<Rightarrow> completion \<times> state" where
  "forEach e [] s = (Normal, s)"
| "forEach e (c # cs) s =
     (if raises e c then (Throw, s\<lparr>calls := calls s @ [c]\<rparr>)
      else forEach e cs (s\<lparr>calls := calls s @ [c]\<rparr>))"

definition handleOpen :: "env \<Rightarrow> state \<Rightarrow> completion \<times> state" where
  "handleOpen e s =
     (let s1 = logConsole LogConnected s;
          s2 = s1\<lparr>currentReconnectAttempts := 0\<rparr>;
          s3 = startHeartbeat s2
      in forEach e (map OpenCall (openHandlers s3)) s3)"

text \<open>\<open>JSON.parse(event.data)\<close>: data that is not text is turned into a string that does not parse.\<close>

definition parseData :: "env \<Rightarrow> payload \<Rightarrow> jsval option" where
  "parseData e d = (case d of Text x \<Rightarrow> jsonParse e x | Binary b \<Rightarrow> None)"

text \<open>
  The \<open>try\<close> block holds both the parse and the delivery of the parsed value, so the
  \<open>catch\<close> block runs when either throws.
\<close>

definition handleMessage :: "env \<Rightarrow> payload \<Rightarrow> state \<Rightarrow> completion \<times> state" where
  "handleMessage e d s =
     (case parseData e d of
        None \<Rightarrow> forEach e (map (\<lambda>h. MessageCall h (rawValue d)) (messageHandlers s)) s
      | Some v \<Rightarrow>
          (case forEach e (map (\<lambda>h. MessageCall h v) (messageHandlers s)) s of
             (Normal, s1) \<Rightarrow> (Normal, s1)
           | (Throw, s1) \<Rightarrow>
               forEach e (map (\<lambda>h. MessageCall h (rawValue d)) (messageHandlers s1)) s1))"

definition handleClose :: "env \<Rightarrow> state \<Rightarrow> completion \<times> state" where
  "handleClose e s =
     (let s1 = stopHeartbeat (logConsole LogClosed s)
      in case forEach e (map CloseCall (closeHandlers s1)) s1 of
           (Throw, s2) \<Rightarrow> (Throw, s2)
         | (Normal, s2) \<Rightarrow> (Normal, if \<not> isManualClose s2 then reconnect s2 else s2))"

definition handleError :: "env \<Rightarrow> state \<Rightarrow> completion \<times> state" where
  "handleError e s =
     (let s1 = logConsole ErrorSocket s
      in forEach e (map ErrorCall (errorHandlers s1)) s1)"

subsection \<open>Timer callbacks\<close>

text \<open>\<open>JSON.stringify({ type: 'ping' })\<close>\<close>

definition pingText :: string where
  "pingText = ''{'' @ [CHR 0x22] @ ''type'' @ [CHR 0x22] @ '':'' @ [CHR 0x22] @ ''ping''
     @ [CHR 0x22] @ ''}''"

definition heartbeatTick :: "state \<Rightarrow> completion \<times> state" where
  "heartbeatTick s = (if wsOpen s then send (Text pingText) s else (Normal, s))"

definition reconnectFire :: "env \<Rightarrow> state \<Rightarrow> state" where
  "reconnectFire e s = connect e s"

subsection \<open>The event loop\<close>

text \<open>
  What can happen to a client: a call of a public method, an event of one of the sockets it
  created, or a timer firing. The browser delivers an open event only to a connecting socket,
  a message only to an open one, a close event only to a socket not yet closed, and fires only
  live timers (a timeout once); an event that cannot happen leaves the state as it is. An
  exception that leaves an event callback is reported by the browser and the loop goes on.
\<close>

datatype event =
    Connect
  | Send payload
  | Close
  | OnMessage nat | OffMessage nat
  | OnOpen nat | OffOpen nat
  | OnClose nat | OffClose nat
  | OnError nat | OffError nat
  | SocketOpened nat
  | SocketMessage nat payload
  | SocketClosed nat
  | SocketError nat
  | IntervalFired nat
  | TimeoutFired nat

fun step :: "env \<Rightarrow> event \<Rightarrow> state \<Rightarrow> state" where
  "step e Connect s = connect e s"
| "step e (Send d) s = snd (send d s)"
| "step e Close s = close s"
| "step e (OnMessage h) s = onMessage h s"
| "step e (OffMessage h) s = offMessage h s"
| "step e (OnOpen h) s = onOpen h s"
| "step e (OffOpen h) s = offOpen h s"
| "step e (OnClose h) s = onClose h s"
| "step e (OffClose h) s = offClose h s"
| "step e (OnError h) s = onError h s"
| "step e (OffError h) s = offError h s"
| "step e (SocketOpened w) s =
     (case sockets s w of
        None \<Rightarrow> s
      | Some t \<Rightarrow>
          if readyState t = CONNECTING
          then (if callbacksBound t then snd (handleOpen e (setReadyState w OPEN s))
                else setReadyState w OPEN s)
          else s)"
| "step e (SocketMessage w d) s =
     (case sockets s w of
        None \<Rightarrow> s
      | Some t \<Rightarrow>
          if readyState t = OPEN \<and> callbacksBound t then snd (handleMessage e d s) else s)"
| "step e (SocketClosed w) s =
     (case sockets s w of
        None \<Rightarrow> s
      | Some t \<Rightarrow>
          if readyState t \<noteq> CLOSED
          then (if callbacksBound t then snd (handleClose e (setReadyState w CLOSED s))
                else setReadyState w CLOSED s)
          else s)"
| "step e (SocketError w) s =
     (case sockets s w of
        None \<Rightarrow> s
      | Some t \<Rightarrow> if callbacksBound t then snd (handleError e s) else s)"
| "step e (IntervalFired t) s =
     (if t \<in> intervals s then snd (heartbeatTick s) else s)"
| "step e (TimeoutFired t) s =
     (if t \<in> timeouts s then reconnectFire e (s\<lparr>timeouts := timeouts s - {t}\<rparr>) else s)"

fun run :: "env \<Rightarrow> event list \<Rightarrow> state \<Rightarrow> state" where
  "run e [] s = s"
| "run e (ev # evs) s = run e evs (step e ev s)"

subsection \<open>Measures on runs\<close>

text \<open>
  Classifiers of events, the number of reconnects the client has announced on the console
  (one line per scheduled reconnect), and the sockets that are still connecting.
\<close>

fun isSocketOpened :: "event \<Rightarrow> bool" where
  "isSocketOpened (SocketOpened w) = True"
| "isSocketOpened ev = False"

fun isSend :: "event \<Rightarrow> bool" where
  "isSend (Send d) = True"
| "isSend ev = False"

fun isConnect :: "event \<Rightarrow> bool" where
  "isConnect Connect = True"
| "isConnect ev = False"

fun isLogReconnecting :: "console_entry \<Rightarrow> bool" where
  "isLogReconnecting (LogReconnecting n) = True"
| "isLogReconnecting c = False"

definition reconnectsLogged :: "state \<Rightarrow> nat" where
  "reconnectsLogged s = length (filter isLogReconnecting (console s))"

definition isConnecting :: "state \<Rightarrow> nat \<Rightarrow> bool" where
  "isConnecting s w = (case sockets s w of None \<Rightarrow> False | Some t \<Rightarrow> readyState t = CONNECTING)"

definition connectingSockets :: "state \<Rightarrow> nat list" where
  "connectingSockets s = filter (isConnecting s) [0..<nextSocket s]"

text \<open>
  \<open>advanced s s'\<close>: from \<open>s\<close> to \<open>s'\<close> the ceiling is the same, the attempt counter has only
  grown, and only within the ceiling; every unit it grew by is one timer identifier handed
  out and one reconnect announced on the console; a live timeout of \<open>s'\<close> was live in \<open>s\<close> or
  is one of the identifiers handed out in between.
\<close>

definition advanced :: "state \<Rightarrow> state \<Rightarrow> bool" where
  "advanced s s' \<longleftrightarrow>
     reconnectAttempts s' = reconnectAttempts s \<and>
     currentReconnectAttempts s \<le> currentReconnectAttempts s' \<and>
     (currentReconnectAttempts s' \<le> reconnectAttempts s \<or>
      currentReconnectAttempts s' = currentReconnectAttempts s) \<and>
     int (nextTimer s') = int (nextTimer s) + (currentReconnectAttempts s' - currentReconnectAttempts s) \<and>
     int (reconnectsLogged s') =
       int (reconnectsLogged s) + (currentReconnectAttempts s' - currentReconnectAttempts s) \<and>
     timeouts s' \<subseteq> timeouts s \<union> {nextTimer s ..< nextTimer s'}"

subsection \<open>Example inputs\<close>

text \<open>
  The inputs the concrete evaluations below use: options that leave every optional field out,
  a parser that agrees with \<open>JSON.parse\<close> on the texts used (\<open>1\<close> is the number 1, \<open>x\<close> is
  not JSON), an environment in which nothing throws, and one in which exactly one subscriber
  invocation throws.
\<close>

definition exampleOptions :: SocketOptions where
  "exampleOptions =
     \<lparr> opt_url = ''ws://example'', opt_heartbeatInterval = None, opt_reconnectInterval = None,
       opt_reconnectAttempts = None, opt_protocols = None \<rparr>"

definition exampleParse :: "string \<Rightarrow> jsval option" where
  "exampleParse x = (if x = ''1'' then Some (VNum 1) else None)"

definition quietEnv :: env where
  "quietEnv = \<lparr> jsonParse = exampleParse, raises = (\<lambda>c. False), ctorThrows = (\<lambda>u p. False) \<rparr>"

definition throwingEnv :: "call \<Rightarrow> env" where
  "throwingEnv c = \<lparr> jsonParse = exampleParse, raises = (\<lambda>x. x = c), ctorThrows = (\<lambda>u p. False) \<rparr>"

subsection \<open>An invariant of the reachable states\<close>

text \<open>
  Timer identifiers are positive and below \<open>nextTimer\<close>; the live interval timers are exactly
  the one \<open>heartbeatTimer\<close> holds; socket identifiers are below \<open>nextSocket\<close>; every socket
  has this client's callbacks; the handle \<open>ws\<close> names a socket identifier already handed out.
\<close>

definition inv :: "state \<Rightarrow> bool" where
  "inv s \<longleftrightarrow>
     0 < nextTimer s \<and>
     heartbeatTimer s \<noteq> Some 0 \<and>
     intervals s = set_option (heartbeatTimer s) \<and>
     (\<forall>t\<in>timeouts s. t < nextTimer s) \<and>
     (\<forall>t\<in>intervals s. t < nextTimer s) \<and>
     (\<forall>w. nextSocket s \<le> w \<longrightarrow> sockets s w = None) \<and>
     (\<forall>w t. sockets s w = Some t \<longrightarrow> callbacksBound t) \<and>
     (\<forall>w. ws s = Some w \<longrightarrow> w < nextSocket s)"

section \<open>Basic facts\<close>

subsection \<open>The subscriber loop\<close>

lemma forEach_frame: "\<exists>cs'. snd (forEach e cs s) = s\<lparr>calls := cs'\<rparr>"
proof (induction cs arbitrary: s)
  case Nil
  have "s = s\<lparr>calls := calls s\<rparr>" by simp
  then show ?case by (metis forEach.simps(1) snd_conv)
next
  case (Cons c cs)
  show ?case
  proof (cases "raises e c")
    case True
    then show ?thesis by auto
  next
    case False
    from Cons[of "s\<lparr>calls := calls s @ [c]\<rparr>"] obtain cs' where
      "snd (forEach e cs (s\<lparr>calls := calls s @ [c]\<rparr>)) = s\<lparr>calls := calls s @ [c]\<rparr>\<lparr>calls := cs'\<rparr>"
      by blast
    with False show ?thesis by auto
  qed
qed



subsection \<open>The invariant holds in every reachable state\<close>

lemma inv_init: "inv (SocketClient opts)"
  by (simp add: inv_def SocketClient_def)

lemma inv_calls [simp]: "inv (s\<lparr>calls := x\<rparr>) = inv s"
  by (simp add: inv_def)

lemma inv_console [simp]: "inv (logConsole c s) = inv s"
  by (simp add: inv_def logConsole_def)

lemma inv_forEach: "inv s \<Longrightarrow> inv (snd (forEach e cs s))"
  using forEach_frame[of e cs s] by auto

lemma inv_stopHeartbeat: "inv s \<Longrightarrow> inv (stopHeartbeat s)"
  by (auto simp: inv_def stopHeartbeat_def split: option.splits)

lemma inv_startHeartbeat: "inv s \<Longrightarrow> inv (startHeartbeat s)"
  by (auto simp: inv_def startHeartbeat_def stopHeartbeat_def Let_def less_Suc_eq split: option.splits)

lemma inv_stopReconnect: "inv s \<Longrightarrow> inv (stopReconnect s)"
  by (auto simp: inv_def stopReconnect_def split: option.splits)

lemma inv_reconnect: "inv s \<Longrightarrow> inv (reconnect s)"
  by (auto simp: inv_def reconnect_def logConsole_def Let_def less_Suc_eq split: option.splits)

lemma inv_setReadyState: "inv s \<Longrightarrow> inv (setReadyState w r s)"
  by (auto simp: inv_def setReadyState_def split: option.splits)

lemma inv_wsClose: "inv s \<Longrightarrow> inv (wsClose w s)"
  by (auto simp: inv_def wsClose_def split: option.splits)

lemma inv_newSocket:
  "inv s \<Longrightarrow>
   inv (s\<lparr>sockets := (sockets s)(nextSocket s := Some \<lparr>readyState = CONNECTING, callbacksBound = True\<rparr>),
          nextSocket := Suc (nextSocket s), ws := Some (nextSocket s)\<rparr>)"
  by (simp add: inv_def)

lemma inv_connect: "inv s \<Longrightarrow> inv (connect e s)"
  by (simp add: connect_def Let_def inv_reconnect inv_newSocket)

lemma inv_sent [simp]: "inv (s\<lparr>sent := x\<rparr>) = inv s"
  by (simp add: inv_def)

lemma inv_wsSend: "inv s \<Longrightarrow> inv (snd (wsSend w d s))"
  by (simp add: wsSend_def split: option.splits ready_state.splits)

lemma inv_send: "inv s \<Longrightarrow> inv (snd (send d s))"
  by (simp add: send_def inv_wsSend split: option.splits)

lemma inv_close: "inv s \<Longrightarrow> inv (close s)"
proof -
  assume a: "inv s"
  have "inv (s\<lparr>isManualClose := True\<rparr>)" using a by (simp add: inv_def)
  then have b: "inv (stopReconnect (stopHeartbeat (s\<lparr>isManualClose := True\<rparr>)))"
    by (intro inv_stopReconnect inv_stopHeartbeat)
  have c: "\<And>s w. inv s \<Longrightarrow> inv ((wsClose w s)\<lparr>ws := None\<rparr>)"
    using inv_wsClose by (simp add: inv_def)
  show ?thesis using b c by (auto simp: close_def Let_def split: option.splits)
qed

lemma inv_handleOpen: "inv s \<Longrightarrow> inv (snd (handleOpen e s))"
proof -
  assume a: "inv s"
  have "inv ((logConsole LogConnected s)\<lparr>currentReconnectAttempts := 0\<rparr>)"
    using a by (simp add: inv_def logConsole_def)
  then show ?thesis
    by (simp add: handleOpen_def Let_def inv_forEach inv_startHeartbeat)
qed

lemma inv_handleMessage: "inv s \<Longrightarrow> inv (snd (handleMessage e d s))"
proof -
  assume a: "inv s"
  show ?thesis
  proof (cases "parseData e d")
    case None
    then show ?thesis using a by (simp add: handleMessage_def inv_forEach)
  next
    case (Some v)
    obtain r s1 where f: "forEach e (map (\<lambda>h. MessageCall h v) (messageHandlers s)) s = (r, s1)"
      by (cases "forEach e (map (\<lambda>h. MessageCall h v) (messageHandlers s)) s")
    then have "inv s1" using inv_forEach[OF a, of e "map (\<lambda>h. MessageCall h v) (messageHandlers s)"] by simp
    then show ?thesis using Some f by (cases r) (simp_all add: handleMessage_def inv_forEach)
  qed
qed

lemma inv_handleClose: "inv s \<Longrightarrow> inv (snd (handleClose e s))"
proof -
  assume a: "inv s"
  let ?s1 = "stopHeartbeat (logConsole LogClosed s)"
  have b: "inv ?s1" using a by (simp add: inv_stopHeartbeat)
  obtain r s2 where f: "forEach e (map CloseCall (closeHandlers ?s1)) ?s1 = (r, s2)"
    by (cases "forEach e (map CloseCall (closeHandlers ?s1)) ?s1")
  then have "inv s2" using inv_forEach[OF b, of e "map CloseCall (closeHandlers ?s1)"] by simp
  then show ?thesis using f by (cases r) (simp_all add: handleClose_def Let_def inv_reconnect)
qed

lemma inv_handleError: "inv s \<Longrightarrow> inv (snd (handleError e s))"
  by (simp add: handleError_def Let_def inv_forEach)

lemma inv_heartbeatTick: "inv s \<Longrightarrow> inv (snd (heartbeatTick s))"
  by (simp add: heartbeatTick_def inv_send)

lemma inv_handlers:
  "inv (onMessage h s) = inv s" "inv (offMessage h s) = inv s"
  "inv (onOpen h s) = inv s" "inv (offOpen h s) = inv s"
  "inv (onClose h s) = inv s" "inv (offClose h s) = inv s"
  "inv (onError h s) = inv s" "inv (offError h s) = inv s"
  by (simp_all add: inv_def onMessage_def offMessage_def onOpen_def offOpen_def
      onClose_def offClose_def onError_def offError_def)

lemma inv_step: "inv s \<Longrightarrow> inv (step e ev s)"
proof (cases ev)
  case (TimeoutFired t)
  assume a: "inv s"
  have "inv (s\<lparr>timeouts := timeouts s - {t}\<rparr>)" using a by (simp add: inv_def)
  then show ?thesis using a TimeoutFired by (simp add: reconnectFire_def inv_connect)
qed (auto simp: inv_connect inv_send inv_close inv_handlers inv_handleOpen inv_handleMessage
       inv_handleClose inv_handleError inv_heartbeatTick inv_setReadyState split: option.splits)

lemma inv_run: "inv s \<Longrightarrow> inv (run e evs s)"
  by (induction evs arbitrary: s) (simp_all add: inv_step)

lemma inv_reachable: "inv (run e evs (SocketClient opts))"
  by (rule inv_run[OF inv_init])

subsection \<open>Sending\<close>

lemma wsOpen_handle: "wsOpen s \<Longrightarrow> \<exists>w t. ws s = Some w \<and> sockets s w = Some t \<and> readyState t = OPEN"
  by (auto simp: wsOpen_def split: option.splits)

lemma send_open:
  assumes "ws s = Some w" "sockets s w = Some t" "readyState t = OPEN"
  shows "send d s = (Normal, s\<lparr>sent := sent s @ [(w, d)]\<rparr>)"
proof -
  have "wsOpen s" using assms by (simp add: wsOpen_def)
  then show ?thesis using assms by (simp add: send_def wsSend_def)
qed

lemma send_not_open: "\<not> wsOpen s \<Longrightarrow> send d s = (Normal, logConsole WarnNotConnected s)"
  by (simp add: send_def)

section \<open>Properties of the client\<close>

subsection \<open>What send does\<close>

text \<open>
  C9. For every payload and every client state, \<open>send\<close> returns normally; when the transport
  is open the payload goes to the transport unmodified and nothing else changes; when it is
  not, the only effect is the warning on the console: nothing is sent and nothing is stored
  for later (the state has no other change, and no field that could hold a queue).
\<close>

theorem send_forwards_iff_open:
  "fst (send d s) = Normal \<and>
   (wsOpen s \<longrightarrow> (\<exists>w. ws s = Some w \<and> snd (send d s) = s\<lparr>sent := sent s @ [(w, d)]\<rparr>)) \<and>
   (\<not> wsOpen s \<longrightarrow> snd (send d s) = s\<lparr>console := console s @ [WarnNotConnected]\<rparr>)"
proof (cases "wsOpen s")
  case True
  then obtain w t where h: "ws s = Some w" "sockets s w = Some t" "readyState t = OPEN"
    using wsOpen_handle by blast
  have eq: "send d s = (Normal, s\<lparr>sent := sent s @ [(w, d)]\<rparr>)" by (rule send_open[OF h])
  have "fst (send d s) = Normal" "snd (send d s) = s\<lparr>sent := sent s @ [(w, d)]\<rparr>"
    by (simp_all only: eq fst_conv snd_conv)
  then show ?thesis using True h(1) by blast
next
  case False
  then have eq: "send d s = (Normal, logConsole WarnNotConnected s)" by (rule send_not_open)
  have "fst (send d s) = Normal" "snd (send d s) = s\<lparr>console := console s @ [WarnNotConnected]\<rparr>"
    by (simp_all only: eq fst_conv snd_conv logConsole_def)
  then show ?thesis using False by blast
qed
theorem send_forwards_iff_open_witness:
  "wsOpen (run quietEnv [Connect, SocketOpened 0] (SocketClient exampleOptions)) \<and>
   sent (snd (send (Text ''hi'') (run quietEnv [Connect, SocketOpened 0] (SocketClient exampleOptions))))
     = [(0, Text ''hi'')] \<and>
   \<not> wsOpen (run quietEnv [Connect] (SocketClient exampleOptions)) \<and>
   sent (snd (send (Text ''hi'') (run quietEnv [Connect] (SocketClient exampleOptions)))) = [] \<and>
   console (snd (send (Text ''hi'') (run quietEnv [Connect] (SocketClient exampleOptions))))
     = [WarnNotConnected] \<and>
   fst (send (Text ''hi'') (run quietEnv [Connect] (SocketClient exampleOptions))) = Normal"
proof -
  define a where "a = run quietEnv [Connect, SocketOpened 0] (SocketClient exampleOptions)"
  define b where "b = run quietEnv [Connect] (SocketClient exampleOptions)"
  have a: "wsOpen a" unfolding a_def by code_simp
  have wa: "ws a = Some 0" unfolding a_def by code_simp
  have sa: "sent a = []" unfolding a_def by code_simp
  have b: "\<not> wsOpen b" unfolding b_def by code_simp
  have sb: "sent b = []" unfolding b_def by code_simp
  have cb: "console b = []" unfolding b_def by code_simp
  from send_forwards_iff_open[of "Text ''hi''" a] a wa
  have "snd (send (Text ''hi'') a) = a\<lparr>sent := sent a @ [(0, Text ''hi'')]\<rparr>" by auto
  from arg_cong[OF this, of sent]
  have 1: "sent (snd (send (Text ''hi'') a)) = [(0, Text ''hi'')]" using sa by simp
  from send_forwards_iff_open[of "Text ''hi''" b] b
  have f: "fst (send (Text ''hi'') b) = Normal"
    and g: "snd (send (Text ''hi'') b) = b\<lparr>console := console b @ [WarnNotConnected]\<rparr>" by blast+
  from arg_cong[OF g, of sent] arg_cong[OF g, of console]
  have 2: "sent (snd (send (Text ''hi'') b)) = []"
    "console (snd (send (Text ''hi'') b)) = [WarnNotConnected]"
    using sb cb by simp_all
  show ?thesis using a b 1 2 f unfolding a_def b_def by blast
qed

subsection \<open>Connecting again before the transport has opened\<close>

text \<open>
  C10. In a reachable state whose handle names a transport that is not open (connecting,
  closing or closed), \<open>connect\<close> (when the constructor does not throw) makes a new transport
  and stores it in the handle; the previous transport is left exactly as it was (\<open>close\<close> is
  not called on it) and its callbacks are still those of this client: its open and close
  events still run \<open>handleOpen\<close> and \<open>handleClose\<close> of this client.
\<close>

theorem connect_supersedes_unopened_transport:
  assumes "s = run e evs (SocketClient opts)"
    and "ws s = Some w" and "sockets s w = Some t" and "readyState t \<noteq> OPEN"
    and "\<not> ctorThrows e (url s) (protocols s)"
  shows "ws (connect e s) = Some (nextSocket s) \<and> nextSocket s \<noteq> w \<and>
         sockets (connect e s) (nextSocket s) = Some \<lparr>readyState = CONNECTING, callbacksBound = True\<rparr> \<and>
         sockets (connect e s) w = Some t \<and> callbacksBound t \<and>
         (readyState t = CONNECTING \<longrightarrow>
            step e (SocketOpened w) (connect e s)
              = snd (handleOpen e (setReadyState w OPEN (connect e s)))) \<and>
         (readyState t \<noteq> CLOSED \<longrightarrow>
            step e (SocketClosed w) (connect e s)
              = snd (handleClose e (setReadyState w CLOSED (connect e s))))"
proof -
  have i: "inv s" using assms(1) inv_reachable by simp
  have lt: "w < nextSocket s" using i assms(2) by (simp add: inv_def)
  have cb: "callbacksBound t" using i assms(3) by (simp add: inv_def)
  have no: "\<not> wsOpen s" using assms(2,3,4) by (simp add: wsOpen_def)
  define s' where "s' = connect e s"
  have c: "s' = s\<lparr>sockets := (sockets s)(nextSocket s := Some \<lparr>readyState = CONNECTING, callbacksBound = True\<rparr>),
          nextSocket := Suc (nextSocket s), ws := Some (nextSocket s)\<rparr>"
    unfolding s'_def using no assms(5) by (simp add: connect_def Let_def)
  have 1: "ws s' = Some (nextSocket s)" using arg_cong[OF c, of ws] by simp
  have 2: "sockets s' (nextSocket s) = Some \<lparr>readyState = CONNECTING, callbacksBound = True\<rparr>"
    using arg_cong[OF c, of sockets] by simp
  have 3: "sockets s' w = Some t" using arg_cong[OF c, of sockets] lt assms(3) by simp
  have 4: "readyState t = CONNECTING \<longrightarrow>
            step e (SocketOpened w) s' = snd (handleOpen e (setReadyState w OPEN s'))"
    using 3 cb by simp
  have 5: "readyState t \<noteq> CLOSED \<longrightarrow>
            step e (SocketClosed w) s' = snd (handleClose e (setReadyState w CLOSED s'))"
    using 3 cb by simp
  show ?thesis using 1 2 3 4 5 lt cb unfolding s'_def by blast
qed

theorem connect_supersedes_unopened_transport_witness:
  "ws (run quietEnv [Connect] (SocketClient exampleOptions)) = Some 0 \<and>
   sockets (run quietEnv [Connect] (SocketClient exampleOptions)) 0
     = Some \<lparr>readyState = CONNECTING, callbacksBound = True\<rparr> \<and>
   \<not> ctorThrows quietEnv (url (run quietEnv [Connect] (SocketClient exampleOptions)))
        (protocols (run quietEnv [Connect] (SocketClient exampleOptions))) \<and>
   ws (connect quietEnv (run quietEnv [Connect] (SocketClient exampleOptions))) = Some 1 \<and>
   sockets (connect quietEnv (run quietEnv [Connect] (SocketClient exampleOptions))) 1
     = Some \<lparr>readyState = CONNECTING, callbacksBound = True\<rparr> \<and>
   sockets (connect quietEnv (run quietEnv [Connect] (SocketClient exampleOptions))) 0
     = Some \<lparr>readyState = CONNECTING, callbacksBound = True\<rparr>"
proof -
  define s where "s = run quietEnv [Connect] (SocketClient exampleOptions)"
  define t where "t = \<lparr>readyState = CONNECTING, callbacksBound = True\<rparr>"
  have 0: "s = run quietEnv [Connect] (SocketClient exampleOptions)" by (rule s_def)
  have 1: "ws s = Some 0" unfolding s_def by code_simp
  have 2: "sockets s 0 = Some t" unfolding s_def t_def by code_simp
  have 3: "readyState t \<noteq> OPEN" by (simp add: t_def)
  have 4: "\<not> ctorThrows quietEnv (url s) (protocols s)" by (simp add: quietEnv_def)
  have 5: "nextSocket s = 1" unfolding s_def by code_simp
  from connect_supersedes_unopened_transport[OF 0 1 2 3 4]
  have "ws (connect quietEnv s) = Some (nextSocket s)"
    "sockets (connect quietEnv s) (nextSocket s) = Some \<lparr>readyState = CONNECTING, callbacksBound = True\<rparr>"
    "sockets (connect quietEnv s) 0 = Some t" by blast+
  then show ?thesis using 1 2 4 unfolding 5 unfolding s_def t_def by blast
qed

subsection \<open>The open-subscribers\<close>

lemma startHeartbeat_keeps:
  "openHandlers (startHeartbeat s) = openHandlers s" "calls (startHeartbeat s) = calls s"
  "currentReconnectAttempts (startHeartbeat s) = currentReconnectAttempts s"
  by (simp_all add: startHeartbeat_def stopHeartbeat_def Let_def split: option.splits)





subsection \<open>Message delivery\<close>







text \<open>
  C5, at a failing input. Two message-subscribers, the second of which throws on the parsed
  value: the message \<open>1\<close> parses, both subscribers are called with the number 1, the
  exception of the second is caught by the \<open>catch\<close> meant for the parse, and both are called
  again with the raw text. Each subscriber is invoked twice for one message.
\<close>

theorem message_subscribers_invoked_twice:
  "messageHandlers (run (throwingEnv (MessageCall 2 (VNum 1)))
      [OnMessage 1, OnMessage 2, Connect, SocketOpened 0] (SocketClient exampleOptions)) = [1, 2] \<and>
   calls (run (throwingEnv (MessageCall 2 (VNum 1)))
      [OnMessage 1, OnMessage 2, Connect, SocketOpened 0] (SocketClient exampleOptions)) = [] \<and>
   calls (run (throwingEnv (MessageCall 2 (VNum 1)))
      [OnMessage 1, OnMessage 2, Connect, SocketOpened 0, SocketMessage 0 (Text ''1'')]
      (SocketClient exampleOptions))
     = [MessageCall 1 (VNum 1), MessageCall 2 (VNum 1),
        MessageCall 1 (VStr ''1''), MessageCall 2 (VStr ''1'')]"
  by code_simp

subsection \<open>The reconnect ceiling taken from the options\<close>

lemma ceiling_nonzero:
  "v \<noteq> 0 \<Longrightarrow> reconnectAttempts (SocketClient (options\<lparr>opt_reconnectAttempts := Some v\<rparr>)) = v"
  by (simp add: SocketClient_def orDefault_def)

lemma ceiling_omitted:
  "reconnectAttempts (SocketClient (options\<lparr>opt_reconnectAttempts := None\<rparr>)) = 5"
  by (simp add: SocketClient_def orDefault_def)

text \<open>
  C4, at a failing input. A client constructed with \<open>reconnectAttempts: 0\<close> gets the ceiling
  5, and when its first transport closes it schedules a reconnect (timer 1, attempt 1).
\<close>

theorem zero_ceiling_replaced_by_default:
  "reconnectAttempts (SocketClient (exampleOptions\<lparr>opt_reconnectAttempts := Some 0\<rparr>)) = 5 \<and>
   timeouts (run quietEnv [Connect, SocketClosed 0]
      (SocketClient (exampleOptions\<lparr>opt_reconnectAttempts := Some 0\<rparr>))) = {1} \<and>
   currentReconnectAttempts (run quietEnv [Connect, SocketClosed 0]
      (SocketClient (exampleOptions\<lparr>opt_reconnectAttempts := Some 0\<rparr>))) = 1 \<and>
   console (run quietEnv [Connect, SocketClosed 0]
      (SocketClient (exampleOptions\<lparr>opt_reconnectAttempts := Some 0\<rparr>)))
     = [LogClosed, LogReconnecting 1]"
  by code_simp

subsection \<open>The heartbeat timer\<close>

lemma heartbeat_single_timer:
  "intervals (run e evs (SocketClient opts)) = set_option (heartbeatTimer (run e evs (SocketClient opts)))"
  using inv_reachable[of e evs opts] by (simp add: inv_def)

lemma heartbeat_at_most_one: "card (intervals (run e evs (SocketClient opts))) \<le> 1"
  unfolding heartbeat_single_timer by (cases "heartbeatTimer (run e evs (SocketClient opts))") simp_all

text \<open>
  C1, at a failing input. \<open>connect\<close> is called twice before the first transport has opened,
  and both transports then close. Each close event runs \<open>reconnect\<close>, which starts a timer
  without cancelling the one before: timers 1 and 2 are both live, and \<open>reconnectTimer\<close>
  holds only 2. A manual \<open>close\<close> then cancels timer 2 only; timer 1 stays live, and when it
  fires it connects again although the client was closed by hand.
\<close>

theorem two_live_reconnect_timers:
  "timeouts (run quietEnv [Connect, Connect, SocketClosed 0] (SocketClient exampleOptions)) = {1} \<and>
   timeouts (run quietEnv [Connect, Connect, SocketClosed 0, SocketClosed 1]
      (SocketClient exampleOptions)) = {1, 2} \<and>
   reconnectTimer (run quietEnv [Connect, Connect, SocketClosed 0, SocketClosed 1]
      (SocketClient exampleOptions)) = Some 2 \<and>
   timeouts (run quietEnv [Connect, Connect, SocketClosed 0, SocketClosed 1, Close]
      (SocketClient exampleOptions)) = {1} \<and>
   getReadyState (run quietEnv [Connect, Connect, SocketClosed 0, SocketClosed 1, Close, TimeoutFired 1]
      (SocketClient exampleOptions)) = CONNECTING"
  by code_simp

subsection \<open>The shape of the state an event handler leaves\<close>

lemma forEach_result: "\<exists>r cs'. forEach e cs s = (r, s\<lparr>calls := cs'\<rparr>)"
proof -
  obtain cs' where "snd (forEach e cs s) = s\<lparr>calls := cs'\<rparr>" using forEach_frame by blast
  then have "forEach e cs s = (fst (forEach e cs s), s\<lparr>calls := cs'\<rparr>)"
    by (metis prod.collapse)
  then show ?thesis by blast
qed

lemma handleOpen_shape:
  "\<exists>cs'. snd (handleOpen e s) =
     (startHeartbeat ((logConsole LogConnected s)\<lparr>currentReconnectAttempts := 0\<rparr>))\<lparr>calls := cs'\<rparr>"
  unfolding handleOpen_def Let_def by (rule forEach_frame)

lemma handleMessage_shape: "\<exists>cs'. snd (handleMessage e d s) = s\<lparr>calls := cs'\<rparr>"
proof (cases "parseData e d")
  case None
  then show ?thesis using forEach_frame by (simp add: handleMessage_def)
next
  case (Some v)
  obtain r c1 where f: "forEach e (map (\<lambda>h. MessageCall h v) (messageHandlers s)) s = (r, s\<lparr>calls := c1\<rparr>)"
    using forEach_result by blast
  show ?thesis
  proof (cases r)
    case Normal
    have "handleMessage e d s = (Normal, s\<lparr>calls := c1\<rparr>)"
      by (simp add: handleMessage_def Some f Normal)
    then have "snd (handleMessage e d s) = s\<lparr>calls := c1\<rparr>" by (simp only: snd_conv)
    then show ?thesis by blast
  next
    case Throw
    let ?s1 = "s\<lparr>calls := c1\<rparr>"
    have h: "handleMessage e d s =
        forEach e (map (\<lambda>h. MessageCall h (rawValue d)) (messageHandlers ?s1)) ?s1"
      by (simp add: handleMessage_def Some f Throw)
    obtain c2 where "snd (forEach e (map (\<lambda>h. MessageCall h (rawValue d)) (messageHandlers ?s1)) ?s1)
        = ?s1\<lparr>calls := c2\<rparr>"
      using forEach_frame by blast
    then have "snd (handleMessage e d s) = s\<lparr>calls := c2\<rparr>" unfolding h by simp
    then show ?thesis by blast
  qed
qed

lemma handleError_shape:
  "\<exists>cs'. snd (handleError e s) = (logConsole ErrorSocket s)\<lparr>calls := cs'\<rparr>"
  unfolding handleError_def Let_def by (rule forEach_frame)

lemma stopHeartbeat_isManualClose: "isManualClose (stopHeartbeat s) = isManualClose s"
  by (simp add: stopHeartbeat_def split: option.splits)

lemma handleClose_shape:
  "\<exists>cs'. snd (handleClose e s) =
      (if isManualClose s then (stopHeartbeat (logConsole LogClosed s))\<lparr>calls := cs'\<rparr>
       else reconnect ((stopHeartbeat (logConsole LogClosed s))\<lparr>calls := cs'\<rparr>))
    \<or> snd (handleClose e s) = (stopHeartbeat (logConsole LogClosed s))\<lparr>calls := cs'\<rparr>"
proof -
  let ?s1 = "stopHeartbeat (logConsole LogClosed s)"
  obtain r c1 where f: "forEach e (map CloseCall (closeHandlers ?s1)) ?s1 = (r, ?s1\<lparr>calls := c1\<rparr>)"
    using forEach_result by blast
  have m: "isManualClose (?s1\<lparr>calls := c1\<rparr>) = isManualClose s"
    by (simp add: stopHeartbeat_isManualClose logConsole_def)
  show ?thesis
  proof (cases r)
    case Normal
    have "handleClose e s = (Normal, if \<not> isManualClose (?s1\<lparr>calls := c1\<rparr>)
        then reconnect (?s1\<lparr>calls := c1\<rparr>) else ?s1\<lparr>calls := c1\<rparr>)"
      by (simp add: handleClose_def Let_def f Normal)
    then have "snd (handleClose e s) = (if \<not> isManualClose (?s1\<lparr>calls := c1\<rparr>)
        then reconnect (?s1\<lparr>calls := c1\<rparr>) else ?s1\<lparr>calls := c1\<rparr>)"
      by (simp only: snd_conv)
    then have "snd (handleClose e s) = (if isManualClose s then ?s1\<lparr>calls := c1\<rparr>
        else reconnect (?s1\<lparr>calls := c1\<rparr>))"
      unfolding m by simp
    then show ?thesis by blast
  next
    case Throw
    have "handleClose e s = (Throw, ?s1\<lparr>calls := c1\<rparr>)"
      by (simp add: handleClose_def Let_def f Throw)
    then have "snd (handleClose e s) = ?s1\<lparr>calls := c1\<rparr>" by (simp only: snd_conv)
    then show ?thesis by blast
  qed
qed

subsection \<open>The manual-close flag\<close>

lemma isManualClose_prims:
  "isManualClose (logConsole c s) = isManualClose s"
  "isManualClose (startHeartbeat s) = isManualClose s"
  "isManualClose (stopReconnect s) = isManualClose s"
  "isManualClose (reconnect s) = isManualClose s"
  "isManualClose (setReadyState w r s) = isManualClose s"
  "isManualClose (wsClose w s) = isManualClose s"
  "isManualClose (snd (wsSend w d s)) = isManualClose s"
  by (simp_all add: logConsole_def startHeartbeat_def stopHeartbeat_def stopReconnect_def
      reconnect_def setReadyState_def wsClose_def wsSend_def Let_def
      split: option.splits ready_state.splits)

lemma isManualClose_connect: "isManualClose (connect e s) = isManualClose s"
  by (simp add: connect_def Let_def isManualClose_prims)

lemma isManualClose_send: "isManualClose (snd (send d s)) = isManualClose s"
  by (simp add: send_def isManualClose_prims split: option.splits)

lemma isManualClose_close: "isManualClose (close s)"
  by (simp add: close_def Let_def isManualClose_prims stopHeartbeat_isManualClose
      split: option.splits)

lemma isManualClose_handleOpen: "isManualClose (snd (handleOpen e s)) = isManualClose s"
proof -
  obtain cs' where eq: "snd (handleOpen e s) =
     (startHeartbeat ((logConsole LogConnected s)\<lparr>currentReconnectAttempts := 0\<rparr>))\<lparr>calls := cs'\<rparr>"
    using handleOpen_shape by blast
  show ?thesis unfolding eq by (simp add: isManualClose_prims logConsole_def)
qed

lemma isManualClose_handleMessage: "isManualClose (snd (handleMessage e d s)) = isManualClose s"
proof -
  obtain cs' where eq: "snd (handleMessage e d s) = s\<lparr>calls := cs'\<rparr>"
    using handleMessage_shape by blast
  show ?thesis unfolding eq by simp
qed

lemma isManualClose_handleError: "isManualClose (snd (handleError e s)) = isManualClose s"
proof -
  obtain cs' where eq: "snd (handleError e s) = (logConsole ErrorSocket s)\<lparr>calls := cs'\<rparr>"
    using handleError_shape by blast
  show ?thesis unfolding eq by (simp add: logConsole_def)
qed

lemma handleClose_manual:
  assumes "isManualClose s"
  shows "\<exists>cs'. snd (handleClose e s) = (stopHeartbeat (logConsole LogClosed s))\<lparr>calls := cs'\<rparr>"
  using handleClose_shape[of e s] assms by auto

lemma isManualClose_handleClose: "isManualClose (snd (handleClose e s)) = isManualClose s"
proof -
  obtain cs' where eq: "snd (handleClose e s) =
      (if isManualClose s then (stopHeartbeat (logConsole LogClosed s))\<lparr>calls := cs'\<rparr>
       else reconnect ((stopHeartbeat (logConsole LogClosed s))\<lparr>calls := cs'\<rparr>))
    \<or> snd (handleClose e s) = (stopHeartbeat (logConsole LogClosed s))\<lparr>calls := cs'\<rparr>"
    using handleClose_shape by blast
  have a: "isManualClose ((stopHeartbeat (logConsole LogClosed s))\<lparr>calls := cs'\<rparr>) = isManualClose s"
    by (simp add: stopHeartbeat_isManualClose logConsole_def)
  from eq show ?thesis
  proof
    assume "snd (handleClose e s) =
      (if isManualClose s then (stopHeartbeat (logConsole LogClosed s))\<lparr>calls := cs'\<rparr>
       else reconnect ((stopHeartbeat (logConsole LogClosed s))\<lparr>calls := cs'\<rparr>))"
    then show ?thesis using a by (simp add: isManualClose_prims)
  next
    assume "snd (handleClose e s) = (stopHeartbeat (logConsole LogClosed s))\<lparr>calls := cs'\<rparr>"
    then show ?thesis using a by simp
  qed
qed

lemma isManualClose_step: "isManualClose s \<Longrightarrow> isManualClose (step e ev s)"
  by (cases ev)
    (simp_all add: isManualClose_connect isManualClose_send isManualClose_close
      isManualClose_handleOpen isManualClose_handleMessage isManualClose_handleClose
      isManualClose_handleError isManualClose_prims heartbeatTick_def reconnectFire_def
      onMessage_def offMessage_def onOpen_def offOpen_def onClose_def offClose_def
      onError_def offError_def split: option.splits)

lemma isManualClose_run: "isManualClose s \<Longrightarrow> isManualClose (run e evs s)"
  by (induction evs arbitrary: s) (simp_all add: isManualClose_step)

lemma stopHeartbeat_reconnect_fields:
  "timeouts (stopHeartbeat s) = timeouts s" "nextTimer (stopHeartbeat s) = nextTimer s"
  "currentReconnectAttempts (stopHeartbeat s) = currentReconnectAttempts s"
  "reconnectAttempts (stopHeartbeat s) = reconnectAttempts s"
  "console (stopHeartbeat s) = console s"
  by (simp_all add: stopHeartbeat_def split: option.splits)

lemma setReadyState_reconnect_fields:
  "timeouts (setReadyState w r s) = timeouts s" "nextTimer (setReadyState w r s) = nextTimer s"
  "currentReconnectAttempts (setReadyState w r s) = currentReconnectAttempts s"
  "reconnectAttempts (setReadyState w r s) = reconnectAttempts s"
  "console (setReadyState w r s) = console s"
  by (simp_all add: setReadyState_def split: option.splits)

lemma manual_socket_closed:
  assumes "isManualClose s"
  shows "timeouts (step e (SocketClosed w) s) = timeouts s \<and>
         nextTimer (step e (SocketClosed w) s) = nextTimer s \<and>
         currentReconnectAttempts (step e (SocketClosed w) s) = currentReconnectAttempts s"
proof -
  let ?s0 = "setReadyState w CLOSED s"
  have m: "isManualClose ?s0" using assms by (simp add: isManualClose_prims)
  obtain cs' where eq: "snd (handleClose e ?s0) = (stopHeartbeat (logConsole LogClosed ?s0))\<lparr>calls := cs'\<rparr>"
    using handleClose_manual[OF m] by blast
  have "timeouts (snd (handleClose e ?s0)) = timeouts s \<and>
         nextTimer (snd (handleClose e ?s0)) = nextTimer s \<and>
         currentReconnectAttempts (snd (handleClose e ?s0)) = currentReconnectAttempts s"
    unfolding eq
    by (simp add: stopHeartbeat_reconnect_fields setReadyState_reconnect_fields logConsole_def)
  then show ?thesis
    by (simp add: setReadyState_reconnect_fields split: option.splits)
qed

lemma close_fields:
  "ws (close s) = None" "url (close s) = url s" "protocols (close s) = protocols s"
  "nextSocket (close s) = nextSocket s"
  by (simp_all add: close_def Let_def stopHeartbeat_def stopReconnect_def wsClose_def
      split: option.splits)

lemma connect_after_close:
  assumes "\<not> ctorThrows e (url s) (protocols s)"
  shows "ws (connect e (close s)) = Some (nextSocket s) \<and>
         sockets (connect e (close s)) (nextSocket s)
           = Some \<lparr>readyState = CONNECTING, callbacksBound = True\<rparr> \<and>
         nextSocket (connect e (close s)) = Suc (nextSocket s)"
proof -
  define c where "c = close s"
  have k: "ws c = None" "url c = url s" "protocols c = protocols s" "nextSocket c = nextSocket s"
    unfolding c_def by (rule close_fields)+
  have no: "\<not> wsOpen c" using k(1) by (simp add: wsOpen_def)
  have nt: "\<not> ctorThrows e (url c) (protocols c)" using assms k(2,3) by simp
  define c' where "c' = connect e c"
  have eq: "c' = c\<lparr>sockets := (sockets c)(nextSocket c := Some \<lparr>readyState = CONNECTING, callbacksBound = True\<rparr>),
          nextSocket := Suc (nextSocket c), ws := Some (nextSocket c)\<rparr>"
    unfolding c'_def using no nt by (simp add: connect_def Let_def)
  have 1: "ws c' = Some (nextSocket s)" using arg_cong[OF eq, of ws] k(4) by simp
  have 2: "sockets c' (nextSocket s) = Some \<lparr>readyState = CONNECTING, callbacksBound = True\<rparr>"
    using arg_cong[OF eq, of sockets] k(4) by simp
  have 3: "nextSocket c' = Suc (nextSocket s)" using arg_cong[OF eq, of nextSocket] k(4) by simp
  show ?thesis using 1 2 3 unfolding c'_def c_def by blast
qed

text \<open>
  C2, as the code has it. \<open>connect\<close> after \<open>close\<close> is legal: \<open>close\<close> has released the handle,
  so \<open>connect\<close> (when the constructor does not throw) makes a new connecting transport and
  stores it in the handle. It does not clear \<open>isManualClose\<close>, and nothing else in the class
  does: after \<open>close\<close> the flag is set and stays set through every later call and event. A
  transport close after that (of the transport a later \<open>connect\<close> made, or of any other)
  schedules no reconnect: the live timeouts, the timer counter and the attempt counter are as
  before the close event.
\<close>

theorem manual_close_flag_stays_set:
  "(\<not> ctorThrows e (url s) (protocols s) \<longrightarrow>
      ws (connect e (close s)) = Some (nextSocket s) \<and>
      sockets (connect e (close s)) (nextSocket s)
        = Some \<lparr>readyState = CONNECTING, callbacksBound = True\<rparr> \<and>
      nextSocket (connect e (close s)) = Suc (nextSocket s) \<and>
      isManualClose (connect e (close s))) \<and>
   isManualClose (run e evs (close s)) \<and>
   (\<forall>w. timeouts (step e (SocketClosed w) (run e evs (close s))) = timeouts (run e evs (close s)) \<and>
        nextTimer (step e (SocketClosed w) (run e evs (close s))) = nextTimer (run e evs (close s)) \<and>
        currentReconnectAttempts (step e (SocketClosed w) (run e evs (close s)))
          = currentReconnectAttempts (run e evs (close s)))"
proof -
  have m: "isManualClose (run e evs (close s))"
    by (rule isManualClose_run[OF isManualClose_close])
  have c: "isManualClose (connect e (close s))"
    by (simp add: isManualClose_connect isManualClose_close)
  show ?thesis using m c manual_socket_closed[OF m] connect_after_close[of e s] by blast
qed

theorem manual_close_flag_stays_set_witness:
  "\<not> ctorThrows quietEnv (url (run quietEnv [Connect] (SocketClient exampleOptions)))
       (protocols (run quietEnv [Connect] (SocketClient exampleOptions))) \<and>
   nextSocket (run quietEnv [Connect] (SocketClient exampleOptions)) = 1 \<and>
   ws (connect quietEnv (close (run quietEnv [Connect] (SocketClient exampleOptions)))) = Some 1 \<and>
   sockets (connect quietEnv (close (run quietEnv [Connect] (SocketClient exampleOptions)))) 1
     = Some \<lparr>readyState = CONNECTING, callbacksBound = True\<rparr> \<and>
   isManualClose (connect quietEnv (close (run quietEnv [Connect] (SocketClient exampleOptions)))) \<and>
   isManualClose (run quietEnv [Connect] (close (run quietEnv [Connect] (SocketClient exampleOptions)))) \<and>
   timeouts (run quietEnv [Connect] (close (run quietEnv [Connect] (SocketClient exampleOptions)))) = {} \<and>
   timeouts (step quietEnv (SocketClosed 1)
      (run quietEnv [Connect] (close (run quietEnv [Connect] (SocketClient exampleOptions))))) = {}"
proof -
  define a where "a = run quietEnv [Connect] (SocketClient exampleOptions)"
  have n: "\<not> ctorThrows quietEnv (url a) (protocols a)" by (simp add: quietEnv_def)
  have k: "nextSocket a = 1" unfolding a_def by code_simp
  have t: "timeouts (run quietEnv [Connect] (close a)) = {}" unfolding a_def by code_simp
  note th = manual_close_flag_stays_set[where e=quietEnv and s=a and evs="[Connect]"]
  from th[THEN conjunct1, rule_format, OF n]
  have 1: "ws (connect quietEnv (close a)) = Some 1"
    "sockets (connect quietEnv (close a)) 1 = Some \<lparr>readyState = CONNECTING, callbacksBound = True\<rparr>"
    "isManualClose (connect quietEnv (close a))"
    unfolding k by simp_all
  from th[THEN conjunct2, THEN conjunct1]
  have 2: "isManualClose (run quietEnv [Connect] (close a))" .
  from th[THEN conjunct2, THEN conjunct2, rule_format, of 1]
  have 3: "timeouts (step quietEnv (SocketClosed 1) (run quietEnv [Connect] (close a))) = {}"
    unfolding t by simp
  show ?thesis using n k 1 2 t 3 unfolding a_def by blast
qed

text \<open>
  C2 as stated fails: after \<open>connect\<close>, \<open>close\<close>, \<open>connect\<close> the flag is still set and the new
  transport is connecting; when that transport closes, the console shows the close and no
  reconnect, and no timeout is live.
\<close>

theorem connect_after_close_keeps_manual_flag:
  "isManualClose (run quietEnv [Connect, Close, Connect] (SocketClient exampleOptions)) \<and>
   getReadyState (run quietEnv [Connect, Close, Connect] (SocketClient exampleOptions)) = CONNECTING \<and>
   ws (run quietEnv [Connect, Close, Connect] (SocketClient exampleOptions)) = Some 1 \<and>
   timeouts (run quietEnv [Connect, Close, Connect, SocketClosed 1] (SocketClient exampleOptions)) = {} \<and>
   console (run quietEnv [Connect, Close, Connect, SocketClosed 1] (SocketClient exampleOptions))
     = [LogClosed]"
  by code_simp

subsection \<open>The heartbeat once it is stopped\<close>

lemma stopHeartbeat_stops:
  assumes "inv s"
  shows "heartbeatTimer (stopHeartbeat s) = None \<and> intervals (stopHeartbeat s) = {}"
proof (cases "heartbeatTimer s")
  case None
  then show ?thesis using assms by (simp add: stopHeartbeat_def inv_def)
next
  case (Some t)
  then have "t \<noteq> 0" "intervals s = {t}" using assms by (auto simp: inv_def)
  then show ?thesis using Some by (simp add: stopHeartbeat_def)
qed

lemma heartbeat_prims:
  "heartbeatTimer (logConsole c s) = heartbeatTimer s"
  "heartbeatTimer (stopReconnect s) = heartbeatTimer s"
  "heartbeatTimer (reconnect s) = heartbeatTimer s"
  "heartbeatTimer (setReadyState w r s) = heartbeatTimer s"
  "heartbeatTimer (wsClose w s) = heartbeatTimer s"
  "heartbeatTimer (snd (wsSend w d s)) = heartbeatTimer s"
  "intervals (logConsole c s) = intervals s"
  "intervals (reconnect s) = intervals s"
  by (simp_all add: logConsole_def stopReconnect_def reconnect_def setReadyState_def
      wsClose_def wsSend_def Let_def split: option.splits ready_state.splits)

lemma sent_prims:
  "sent (logConsole c s) = sent s"
  "sent (stopHeartbeat s) = sent s"
  "sent (stopReconnect s) = sent s"
  "sent (reconnect s) = sent s"
  "sent (setReadyState w r s) = sent s"
  "sent (wsClose w s) = sent s"
  by (simp_all add: logConsole_def stopHeartbeat_def stopReconnect_def reconnect_def
      setReadyState_def wsClose_def Let_def split: option.splits)

lemma stopHeartbeat_None: "heartbeatTimer s = None \<Longrightarrow> heartbeatTimer (stopHeartbeat s) = None"
  by (simp add: stopHeartbeat_def)

lemma connect_heartbeat_sent:
  "heartbeatTimer (connect e s) = heartbeatTimer s" "sent (connect e s) = sent s"
  by (simp_all add: connect_def Let_def heartbeat_prims sent_prims)

lemma send_heartbeat: "heartbeatTimer (snd (send d s)) = heartbeatTimer s"
  by (simp add: send_def heartbeat_prims split: option.splits)

lemma close_heartbeat_sent:
  "heartbeatTimer s = None \<Longrightarrow> heartbeatTimer (close s) = None" "sent (close s) = sent s"
  by (simp_all add: close_def Let_def heartbeat_prims sent_prims stopHeartbeat_None
      split: option.splits)

lemma handleMessage_heartbeat_sent:
  "heartbeatTimer (snd (handleMessage e d s)) = heartbeatTimer s"
  "sent (snd (handleMessage e d s)) = sent s"
proof -
  obtain cs' where eq: "snd (handleMessage e d s) = s\<lparr>calls := cs'\<rparr>"
    using handleMessage_shape by blast
  show "heartbeatTimer (snd (handleMessage e d s)) = heartbeatTimer s"
    "sent (snd (handleMessage e d s)) = sent s"
    unfolding eq by simp_all
qed

lemma handleError_heartbeat_sent:
  "heartbeatTimer (snd (handleError e s)) = heartbeatTimer s"
  "sent (snd (handleError e s)) = sent s"
proof -
  obtain cs' where eq: "snd (handleError e s) = (logConsole ErrorSocket s)\<lparr>calls := cs'\<rparr>"
    using handleError_shape by blast
  show "heartbeatTimer (snd (handleError e s)) = heartbeatTimer s"
    "sent (snd (handleError e s)) = sent s"
    unfolding eq by (simp_all add: logConsole_def)
qed

lemma handleClose_sent: "sent (snd (handleClose e s)) = sent s"
proof -
  let ?x = "stopHeartbeat (logConsole LogClosed s)"
  obtain cs' where eq: "snd (handleClose e s) =
      (if isManualClose s then ?x\<lparr>calls := cs'\<rparr> else reconnect (?x\<lparr>calls := cs'\<rparr>))
    \<or> snd (handleClose e s) = ?x\<lparr>calls := cs'\<rparr>"
    using handleClose_shape by blast
  have a: "sent (?x\<lparr>calls := cs'\<rparr>) = sent s" by (simp add: sent_prims)
  have b: "sent (reconnect (?x\<lparr>calls := cs'\<rparr>)) = sent s" by (simp add: sent_prims)
  from eq show ?thesis
  proof
    assume "snd (handleClose e s) =
      (if isManualClose s then ?x\<lparr>calls := cs'\<rparr> else reconnect (?x\<lparr>calls := cs'\<rparr>))"
    then show ?thesis using a b by (cases "isManualClose s") simp_all
  next
    assume "snd (handleClose e s) = ?x\<lparr>calls := cs'\<rparr>"
    then show ?thesis using a by simp
  qed
qed

lemma handleClose_stops_heartbeat:
  assumes "inv s"
  shows "heartbeatTimer (snd (handleClose e s)) = None \<and> intervals (snd (handleClose e s)) = {}"
proof -
  let ?x = "stopHeartbeat (logConsole LogClosed s)"
  have "inv (logConsole LogClosed s)" using assms by simp
  from stopHeartbeat_stops[OF this]
  have x: "heartbeatTimer ?x = None" "intervals ?x = {}" by simp_all
  obtain cs' where eq: "snd (handleClose e s) =
      (if isManualClose s then ?x\<lparr>calls := cs'\<rparr> else reconnect (?x\<lparr>calls := cs'\<rparr>))
    \<or> snd (handleClose e s) = ?x\<lparr>calls := cs'\<rparr>"
    using handleClose_shape by blast
  have a: "heartbeatTimer (?x\<lparr>calls := cs'\<rparr>) = None \<and> intervals (?x\<lparr>calls := cs'\<rparr>) = {}"
    using x by simp
  have b: "heartbeatTimer (reconnect (?x\<lparr>calls := cs'\<rparr>)) = None \<and>
           intervals (reconnect (?x\<lparr>calls := cs'\<rparr>)) = {}"
    using x by (simp add: heartbeat_prims)
  from eq show ?thesis
  proof
    assume "snd (handleClose e s) =
      (if isManualClose s then ?x\<lparr>calls := cs'\<rparr> else reconnect (?x\<lparr>calls := cs'\<rparr>))"
    then show ?thesis using a b by (cases "isManualClose s") simp_all
  next
    assume "snd (handleClose e s) = ?x\<lparr>calls := cs'\<rparr>"
    then show ?thesis using a by simp
  qed
qed

lemma handleClose_heartbeat_None:
  assumes "inv s" shows "heartbeatTimer (snd (handleClose e s)) = None"
  using handleClose_stops_heartbeat[OF assms] by simp

lemma handlers_heartbeat_sent:
  "heartbeatTimer (onMessage h s) = heartbeatTimer s" "sent (onMessage h s) = sent s"
  "heartbeatTimer (offMessage h s) = heartbeatTimer s" "sent (offMessage h s) = sent s"
  "heartbeatTimer (onOpen h s) = heartbeatTimer s" "sent (onOpen h s) = sent s"
  "heartbeatTimer (offOpen h s) = heartbeatTimer s" "sent (offOpen h s) = sent s"
  "heartbeatTimer (onClose h s) = heartbeatTimer s" "sent (onClose h s) = sent s"
  "heartbeatTimer (offClose h s) = heartbeatTimer s" "sent (offClose h s) = sent s"
  "heartbeatTimer (onError h s) = heartbeatTimer s" "sent (onError h s) = sent s"
  "heartbeatTimer (offError h s) = heartbeatTimer s" "sent (offError h s) = sent s"
  by (simp_all add: onMessage_def offMessage_def onOpen_def offOpen_def
      onClose_def offClose_def onError_def offError_def)

lemma stopped_step:
  assumes "inv s" "heartbeatTimer s = None" "\<not> isSocketOpened ev"
  shows "heartbeatTimer (step e ev s) = None"
proof (cases ev)
  case (SocketClosed w)
  have "inv (setReadyState w CLOSED s)" using assms(1) by (rule inv_setReadyState)
  from handleClose_heartbeat_None[OF this, of e]
  show ?thesis using SocketClosed assms(2)
    by (simp add: heartbeat_prims split: option.splits)
next
  case (IntervalFired t)
  have "intervals s = {}" using assms(1,2) by (simp add: inv_def)
  then show ?thesis using IntervalFired assms(2) by simp
qed (use assms in \<open>simp_all add: connect_heartbeat_sent send_heartbeat close_heartbeat_sent
      handleMessage_heartbeat_sent handleError_heartbeat_sent handlers_heartbeat_sent
      reconnectFire_def split: option.splits\<close>)

lemma stopped_step_sent:
  assumes "inv s" "heartbeatTimer s = None" "\<not> isSocketOpened ev" "\<not> isSend ev"
  shows "sent (step e ev s) = sent s"
proof (cases ev)
  case (IntervalFired t)
  have "intervals s = {}" using assms(1,2) by (simp add: inv_def)
  then show ?thesis using IntervalFired by simp
qed (use assms in \<open>simp_all add: connect_heartbeat_sent close_heartbeat_sent
      handleMessage_heartbeat_sent handleError_heartbeat_sent handleClose_sent
      handlers_heartbeat_sent sent_prims reconnectFire_def split: option.splits\<close>)

lemma stopped_run:
  assumes "inv s" "heartbeatTimer s = None"
    "list_all (\<lambda>ev. \<not> isSocketOpened ev \<and> \<not> isSend ev) evs"
  shows "sent (run e evs s) = sent s \<and> heartbeatTimer (run e evs s) = None \<and>
         intervals (run e evs s) = {}"
  using assms
proof (induction evs arbitrary: s)
  case Nil
  then show ?case by (simp add: inv_def)
next
  case (Cons ev evs)
  have a: "inv (step e ev s)" using Cons.prems(1) by (rule inv_step)
  have b: "heartbeatTimer (step e ev s) = None"
    using stopped_step[OF Cons.prems(1,2)] Cons.prems(3) by simp
  have c: "sent (step e ev s) = sent s"
    using stopped_step_sent[OF Cons.prems(1,2)] Cons.prems(3) by simp
  have d: "list_all (\<lambda>ev. \<not> isSocketOpened ev \<and> \<not> isSend ev) evs"
    using Cons.prems(3) by simp
  from Cons.IH[OF a b d] c show ?case by simp
qed

lemma heartbeatTick_open:
  assumes "wsOpen s"
  shows "\<exists>w. ws s = Some w \<and> heartbeatTick s = (Normal, s\<lparr>sent := sent s @ [(w, Text pingText)]\<rparr>)"
proof -
  obtain w t where h: "ws s = Some w" "sockets s w = Some t" "readyState t = OPEN"
    using wsOpen_handle[OF assms] by blast
  have "heartbeatTick s = send (Text pingText) s" using assms by (simp add: heartbeatTick_def)
  then have "heartbeatTick s = (Normal, s\<lparr>sent := sent s @ [(w, Text pingText)]\<rparr>)"
    by (simp only: send_open[OF h])
  then show ?thesis using h(1) by blast
qed

text \<open>
  C8. The keep-alive text is the fifteen characters \<open>{"type":"ping"}\<close>. A heartbeat tick
  sends that text through the current transport when that transport is open, and does nothing
  at all when it is not. In every reachable state,
  the close event of a transport cancels the heartbeat timer: afterwards no interval timer is
  live, so no tick can fire, and over any further events that contain neither a transport
  open event (which starts a new heartbeat) nor a call of \<open>send\<close> by the caller, nothing more
  is sent.
\<close>

theorem heartbeat_ping_only_while_open:
  "pingText = [CHR ''{'', CHR 0x22, CHR ''t'', CHR ''y'', CHR ''p'', CHR ''e'', CHR 0x22, CHR '':'',
      CHR 0x22, CHR ''p'', CHR ''i'', CHR ''n'', CHR ''g'', CHR 0x22, CHR ''}''] \<and>
   (wsOpen s \<longrightarrow>
      (\<exists>w. ws s = Some w \<and>
           heartbeatTick s = (Normal, s\<lparr>sent := sent s @ [(w, Text pingText)]\<rparr>))) \<and>
   (\<not> wsOpen s \<longrightarrow> heartbeatTick s = (Normal, s)) \<and>
   (s = run e evs0 (SocketClient opts) \<and> sockets s w = Some t \<and> readyState t \<noteq> CLOSED \<longrightarrow>
      heartbeatTimer (step e (SocketClosed w) s) = None \<and>
      intervals (step e (SocketClosed w) s) = {} \<and>
      (\<forall>k. step e (IntervalFired k) (step e (SocketClosed w) s) = step e (SocketClosed w) s) \<and>
      (\<forall>evs. list_all (\<lambda>ev. \<not> isSocketOpened ev \<and> \<not> isSend ev) evs \<longrightarrow>
         sent (run e evs (step e (SocketClosed w) s)) = sent (step e (SocketClosed w) s) \<and>
         intervals (run e evs (step e (SocketClosed w) s)) = {}))"
proof -
  have a: "\<not> wsOpen s \<longrightarrow> heartbeatTick s = (Normal, s)" by (simp add: heartbeatTick_def)
  have b: "heartbeatTimer (step e (SocketClosed w) s) = None \<and>
      intervals (step e (SocketClosed w) s) = {} \<and>
      (\<forall>k. step e (IntervalFired k) (step e (SocketClosed w) s) = step e (SocketClosed w) s) \<and>
      (\<forall>evs. list_all (\<lambda>ev. \<not> isSocketOpened ev \<and> \<not> isSend ev) evs \<longrightarrow>
         sent (run e evs (step e (SocketClosed w) s)) = sent (step e (SocketClosed w) s) \<and>
         intervals (run e evs (step e (SocketClosed w) s)) = {})"
    if r: "s = run e evs0 (SocketClient opts)" and k: "sockets s w = Some t" "readyState t \<noteq> CLOSED"
  proof -
    define s' where "s' = step e (SocketClosed w) s"
    have i: "inv s" unfolding r by (rule inv_reachable)
    have cb: "callbacksBound t" using i k(1) by (simp add: inv_def)
    have eq: "s' = snd (handleClose e (setReadyState w CLOSED s))"
      unfolding s'_def using k cb by simp
    have i0: "inv (setReadyState w CLOSED s)" using i by (rule inv_setReadyState)
    have i': "inv s'" unfolding s'_def using i by (rule inv_step)
    have h: "heartbeatTimer s' = None" "intervals s' = {}"
      unfolding eq using handleClose_stops_heartbeat[OF i0, of e] by simp_all
    have f: "step e (IntervalFired k) s' = s'" for k using h(2) by simp
    have g: "sent (run e evs s') = sent s' \<and> intervals (run e evs s') = {}"
      if "list_all (\<lambda>ev. \<not> isSocketOpened ev \<and> \<not> isSend ev) evs" for evs
      using stopped_run[OF i' h(1) that, of e] by simp
    show ?thesis using h f g unfolding s'_def by blast
  qed
  show ?thesis
  proof (intro conjI impI)
    show "pingText = [CHR ''{'', CHR 0x22, CHR ''t'', CHR ''y'', CHR ''p'', CHR ''e'', CHR 0x22, CHR '':'',
      CHR 0x22, CHR ''p'', CHR ''i'', CHR ''n'', CHR ''g'', CHR 0x22, CHR ''}'']"
      by (simp add: pingText_def)
  next
    assume "wsOpen s"
    then show "\<exists>w. ws s = Some w \<and>
           heartbeatTick s = (Normal, s\<lparr>sent := sent s @ [(w, Text pingText)]\<rparr>)"
      by (rule heartbeatTick_open)
  next
    assume "\<not> wsOpen s"
    then show "heartbeatTick s = (Normal, s)" using a by simp
  next
    assume h: "s = run e evs0 (SocketClient opts) \<and> sockets s w = Some t \<and> readyState t \<noteq> CLOSED"
    from b h
    have c: "heartbeatTimer (step e (SocketClosed w) s) = None \<and>
      intervals (step e (SocketClosed w) s) = {} \<and>
      (\<forall>k. step e (IntervalFired k) (step e (SocketClosed w) s) = step e (SocketClosed w) s) \<and>
      (\<forall>evs. list_all (\<lambda>ev. \<not> isSocketOpened ev \<and> \<not> isSend ev) evs \<longrightarrow>
         sent (run e evs (step e (SocketClosed w) s)) = sent (step e (SocketClosed w) s) \<and>
         intervals (run e evs (step e (SocketClosed w) s)) = {})"
      by (elim conjE) simp
    from c show "heartbeatTimer (step e (SocketClosed w) s) = None" by (elim conjE)
    from c show "intervals (step e (SocketClosed w) s) = {}" by (elim conjE)
    from c show "\<forall>k. step e (IntervalFired k) (step e (SocketClosed w) s) = step e (SocketClosed w) s"
      by (elim conjE)
    from c show "\<forall>evs. list_all (\<lambda>ev. \<not> isSocketOpened ev \<and> \<not> isSend ev) evs \<longrightarrow>
         sent (run e evs (step e (SocketClosed w) s)) = sent (step e (SocketClosed w) s) \<and>
         intervals (run e evs (step e (SocketClosed w) s)) = {}"
      by (elim conjE)
  qed
qed

theorem heartbeat_ping_only_while_open_witness:
  "wsOpen (run quietEnv [Connect, SocketOpened 0] (SocketClient exampleOptions)) \<and>
   intervals (run quietEnv [Connect, SocketOpened 0] (SocketClient exampleOptions)) = {1} \<and>
   sent (snd (heartbeatTick (run quietEnv [Connect, SocketOpened 0] (SocketClient exampleOptions))))
     = [(0, Text [CHR ''{'', CHR 0x22, CHR ''t'', CHR ''y'', CHR ''p'', CHR ''e'', CHR 0x22, CHR '':'',
      CHR 0x22, CHR ''p'', CHR ''i'', CHR ''n'', CHR ''g'', CHR 0x22, CHR ''}''])] \<and>
   \<not> wsOpen (run quietEnv [Connect] (SocketClient exampleOptions)) \<and>
   sent (snd (heartbeatTick (run quietEnv [Connect] (SocketClient exampleOptions)))) = [] \<and>
   sockets (run quietEnv [Connect, SocketOpened 0] (SocketClient exampleOptions)) 0
     = Some \<lparr>readyState = OPEN, callbacksBound = True\<rparr> \<and>
   intervals (step quietEnv (SocketClosed 0)
     (run quietEnv [Connect, SocketOpened 0] (SocketClient exampleOptions))) = {} \<and>
   sent (run quietEnv [IntervalFired 1, TimeoutFired 2, IntervalFired 1]
     (step quietEnv (SocketClosed 0)
       (run quietEnv [Connect, SocketOpened 0] (SocketClient exampleOptions)))) = []"
proof -
  define a where "a = run quietEnv [Connect, SocketOpened 0] (SocketClient exampleOptions)"
  define b where "b = run quietEnv [Connect] (SocketClient exampleOptions)"
  define t where "t = \<lparr>readyState = OPEN, callbacksBound = True\<rparr>"
  have ra: "a = run quietEnv [Connect, SocketOpened 0] (SocketClient exampleOptions)" by (rule a_def)
  have oa: "wsOpen a" unfolding a_def by code_simp
  have wa: "ws a = Some 0" unfolding a_def by code_simp
  have ia: "intervals a = {1}" unfolding a_def by code_simp
  have sa: "sent a = []" unfolding a_def by code_simp
  have ka: "sockets a 0 = Some t" unfolding a_def t_def by code_simp
  have ta: "readyState t \<noteq> CLOSED" by (simp add: t_def)
  have ob: "\<not> wsOpen b" unfolding b_def by code_simp
  have sb: "sent b = []" unfolding b_def by code_simp
  have sc: "sent (step quietEnv (SocketClosed 0) a) = []" unfolding a_def by code_simp
  have l: "list_all (\<lambda>ev. \<not> isSocketOpened ev \<and> \<not> isSend ev)
      [IntervalFired 1, TimeoutFired 2, IntervalFired 1]" by simp
  note th = heartbeat_ping_only_while_open[where s=a and w=0 and e=quietEnv
      and ?evs0.0="[Connect, SocketOpened 0]" and opts=exampleOptions and t=t]
  have pt: "pingText = [CHR ''{'', CHR 0x22, CHR ''t'', CHR ''y'', CHR ''p'', CHR ''e'', CHR 0x22, CHR '':'',
      CHR 0x22, CHR ''p'', CHR ''i'', CHR ''n'', CHR ''g'', CHR 0x22, CHR ''}'']"
    by (rule th[THEN conjunct1])
  from th[THEN conjunct2, THEN conjunct1, rule_format, OF oa] wa
  have "heartbeatTick a = (Normal, a\<lparr>sent := sent a @ [(0, Text pingText)]\<rparr>)" by auto
  from arg_cong[OF this, of "\<lambda>r. sent (snd r)"]
  have "sent (snd (heartbeatTick a)) = [(0, Text pingText)]" using sa by simp
  then have 1: "sent (snd (heartbeatTick a))
     = [(0, Text [CHR ''{'', CHR 0x22, CHR ''t'', CHR ''y'', CHR ''p'', CHR ''e'', CHR 0x22, CHR '':'',
      CHR 0x22, CHR ''p'', CHR ''i'', CHR ''n'', CHR ''g'', CHR 0x22, CHR ''}''])]"
    unfolding pt .
  have "heartbeatTick b = (Normal, b)"
    using heartbeat_ping_only_while_open[where s=b and w=0 and e=quietEnv and ?evs0.0="[]"
        and opts=exampleOptions and t=t, THEN conjunct2, THEN conjunct2, THEN conjunct1] ob
    by blast
  from arg_cong[OF this, of "\<lambda>r. sent (snd r)"]
  have 2: "sent (snd (heartbeatTick b)) = []" using sb by simp
  have h3: "a = run quietEnv [Connect, SocketOpened 0] (SocketClient exampleOptions) \<and>
      sockets a 0 = Some t \<and> readyState t \<noteq> CLOSED"
    by (intro conjI) (rule ra, rule ka, rule ta)
  note cl = th[THEN conjunct2, THEN conjunct2, THEN conjunct2, rule_format, OF h3]
  have 3: "intervals (step quietEnv (SocketClosed 0) a) = {}"
    by (rule cl[THEN conjunct2, THEN conjunct1])
  have "sent (run quietEnv [IntervalFired 1, TimeoutFired 2, IntervalFired 1]
      (step quietEnv (SocketClosed 0) a)) = sent (step quietEnv (SocketClosed 0) a)"
    using cl[THEN conjunct2, THEN conjunct2, THEN conjunct2, rule_format, OF l] by blast
  then have 4: "sent (run quietEnv [IntervalFired 1, TimeoutFired 2, IntervalFired 1]
      (step quietEnv (SocketClosed 0) a)) = []" using sc by simp
  show ?thesis using oa ia 1 ob 2 ka 3 4 unfolding a_def b_def t_def by blast
qed

subsection \<open>The reconnect budget between two open events\<close>

lemma advanced_refl: "advanced s s"
  by (simp add: advanced_def)

lemma advanced_trans:
  assumes "advanced s s1" "advanced s1 s2"
  shows "advanced s s2"
proof -
  have n1: "nextTimer s \<le> nextTimer s1" using assms(1) unfolding advanced_def by linarith
  have n2: "nextTimer s1 \<le> nextTimer s2" using assms(2) unfolding advanced_def by linarith
  have u: "{nextTimer s ..< nextTimer s1} \<union> {nextTimer s1 ..< nextTimer s2}
      \<subseteq> {nextTimer s ..< nextTimer s2}" using n1 n2 by auto
  have t1: "timeouts s1 \<subseteq> timeouts s \<union> {nextTimer s ..< nextTimer s1}"
    using assms(1) unfolding advanced_def by blast
  have t2: "timeouts s2 \<subseteq> timeouts s1 \<union> {nextTimer s1 ..< nextTimer s2}"
    using assms(2) unfolding advanced_def by blast
  have t: "timeouts s2 \<subseteq> timeouts s \<union> {nextTimer s ..< nextTimer s2}"
    using t1 t2 u by blast
  have a: "reconnectAttempts s2 = reconnectAttempts s"
    "currentReconnectAttempts s \<le> currentReconnectAttempts s2"
    "currentReconnectAttempts s2 \<le> reconnectAttempts s \<or>
      currentReconnectAttempts s2 = currentReconnectAttempts s"
    "int (nextTimer s2) = int (nextTimer s) + (currentReconnectAttempts s2 - currentReconnectAttempts s)"
    "int (reconnectsLogged s2) =
       int (reconnectsLogged s) + (currentReconnectAttempts s2 - currentReconnectAttempts s)"
    using assms unfolding advanced_def by linarith+
  show ?thesis unfolding advanced_def using a t by blast
qed

lemma advanced_same:
  assumes "reconnectAttempts s' = reconnectAttempts s"
    "currentReconnectAttempts s' = currentReconnectAttempts s"
    "nextTimer s' = nextTimer s" "console s' = console s" "timeouts s' \<subseteq> timeouts s"
  shows "advanced s s'"
  using assms by (auto simp: advanced_def reconnectsLogged_def)

lemma advanced_logConsole: "\<not> isLogReconnecting c \<Longrightarrow> advanced s (logConsole c s)"
  by (simp add: advanced_def logConsole_def reconnectsLogged_def)

lemma advanced_reconnect: "advanced s (reconnect s)"
  by (auto simp: advanced_def reconnect_def logConsole_def reconnectsLogged_def Let_def)

lemma advanced_stopHeartbeat: "advanced s (stopHeartbeat s)"
  by (rule advanced_same) (simp_all add: stopHeartbeat_reconnect_fields)

lemma advanced_stopReconnect: "advanced s (stopReconnect s)"
  by (rule advanced_same) (auto simp: stopReconnect_def split: option.splits)

lemma advanced_setReadyState: "advanced s (setReadyState w r s)"
  by (rule advanced_same) (simp_all add: setReadyState_reconnect_fields)

lemma advanced_wsClose: "advanced s (wsClose w s)"
  by (rule advanced_same) (simp_all add: wsClose_def split: option.splits)

lemma advanced_wsSend: "advanced s (snd (wsSend w d s))"
  by (rule advanced_same) (simp_all add: wsSend_def split: option.splits ready_state.splits)

lemma advanced_calls: "advanced s (s\<lparr>calls := x\<rparr>)"
  by (rule advanced_same) simp_all

lemma advanced_connect: "advanced s (connect e s)"
proof -
  have a: "advanced s (logConsole WarnAlreadyConnected s)" by (simp add: advanced_logConsole)
  have b: "advanced s (reconnect (logConsole ErrorConnectFailed s))"
    by (rule advanced_trans[OF _ advanced_reconnect]) (simp add: advanced_logConsole)
  have c: "advanced s (s\<lparr>sockets := x, nextSocket := y, ws := z\<rparr>)" for x y z
    by (rule advanced_same) simp_all
  show ?thesis using a b c by (simp add: connect_def Let_def)
qed

lemma advanced_send: "advanced s (snd (send d s))"
  by (simp add: send_def advanced_wsSend advanced_logConsole advanced_refl split: option.splits)

lemma advanced_close: "advanced s (close s)"
proof -
  let ?a = "s\<lparr>isManualClose := True\<rparr>"
  let ?c = "stopReconnect (stopHeartbeat ?a)"
  have a: "advanced s ?a" by (rule advanced_same) simp_all
  have c: "advanced s ?c"
    by (rule advanced_trans[OF advanced_trans[OF a advanced_stopHeartbeat] advanced_stopReconnect])
  have d: "advanced ?c ((wsClose w ?c)\<lparr>ws := None\<rparr>)" for w
    by (rule advanced_same) (simp_all add: wsClose_def split: option.splits)
  have "advanced s ((wsClose w ?c)\<lparr>ws := None\<rparr>)" for w
    by (rule advanced_trans[OF c d])
  then show ?thesis using c by (simp add: close_def Let_def split: option.splits)
qed

lemma advanced_handleMessage: "advanced s (snd (handleMessage e d s))"
proof -
  obtain cs' where eq: "snd (handleMessage e d s) = s\<lparr>calls := cs'\<rparr>"
    using handleMessage_shape by blast
  show ?thesis unfolding eq by (rule advanced_calls)
qed

lemma advanced_handleError: "advanced s (snd (handleError e s))"
proof -
  obtain cs' where eq: "snd (handleError e s) = (logConsole ErrorSocket s)\<lparr>calls := cs'\<rparr>"
    using handleError_shape by blast
  have "advanced s (logConsole ErrorSocket s)" by (simp add: advanced_logConsole)
  from advanced_trans[OF this advanced_calls] show ?thesis unfolding eq .
qed

lemma advanced_handleClose: "advanced s (snd (handleClose e s))"
proof -
  let ?x = "stopHeartbeat (logConsole LogClosed s)"
  obtain cs' where eq: "snd (handleClose e s) =
      (if isManualClose s then ?x\<lparr>calls := cs'\<rparr> else reconnect (?x\<lparr>calls := cs'\<rparr>))
    \<or> snd (handleClose e s) = ?x\<lparr>calls := cs'\<rparr>"
    using handleClose_shape by blast
  have "advanced s (logConsole LogClosed s)" by (simp add: advanced_logConsole)
  from advanced_trans[OF advanced_trans[OF this advanced_stopHeartbeat] advanced_calls]
  have a: "advanced s (?x\<lparr>calls := cs'\<rparr>)" .
  from advanced_trans[OF a advanced_reconnect]
  have b: "advanced s (reconnect (?x\<lparr>calls := cs'\<rparr>))" .
  from eq show ?thesis
  proof
    assume "snd (handleClose e s) =
      (if isManualClose s then ?x\<lparr>calls := cs'\<rparr> else reconnect (?x\<lparr>calls := cs'\<rparr>))"
    then show ?thesis using a b by (cases "isManualClose s") simp_all
  next
    assume "snd (handleClose e s) = ?x\<lparr>calls := cs'\<rparr>"
    then show ?thesis using a by simp
  qed
qed

lemma advanced_heartbeatTick: "advanced s (snd (heartbeatTick s))"
  by (simp add: heartbeatTick_def advanced_send advanced_refl)

lemma advanced_handlers:
  "advanced s (onMessage h s)" "advanced s (offMessage h s)"
  "advanced s (onOpen h s)" "advanced s (offOpen h s)"
  "advanced s (onClose h s)" "advanced s (offClose h s)"
  "advanced s (onError h s)" "advanced s (offError h s)"
  by (rule advanced_same; simp add: onMessage_def offMessage_def onOpen_def offOpen_def
      onClose_def offClose_def onError_def offError_def)+

lemma advanced_step: "\<not> isSocketOpened ev \<Longrightarrow> advanced s (step e ev s)"
proof (cases ev)
  case (SocketClosed w)
  have "advanced s (snd (handleClose e (setReadyState w CLOSED s)))"
    by (rule advanced_trans[OF advanced_setReadyState advanced_handleClose])
  then show ?thesis using SocketClosed
    by (simp add: advanced_refl advanced_setReadyState split: option.splits)
next
  case (TimeoutFired t)
  have "advanced s (s\<lparr>timeouts := timeouts s - {t}\<rparr>)" by (rule advanced_same) auto
  from advanced_trans[OF this advanced_connect]
  show ?thesis using TimeoutFired by (simp add: reconnectFire_def advanced_refl)
qed (simp_all add: advanced_connect advanced_send advanced_close advanced_handlers
      advanced_handleMessage advanced_handleError advanced_heartbeatTick advanced_refl
      split: option.splits)

lemma advanced_run: "list_all (\<lambda>ev. \<not> isSocketOpened ev) evs \<Longrightarrow> advanced s (run e evs s)"
proof (induction evs arbitrary: s)
  case Nil
  then show ?case by (simp add: advanced_refl)
next
  case (Cons ev evs)
  have a: "advanced s (step e ev s)" using Cons.prems by (simp add: advanced_step)
  have b: "advanced (step e ev s) (run e evs (step e ev s))" using Cons by simp
  show ?case using advanced_trans[OF a b] by simp
qed

lemma advanced_exhausted:
  assumes "advanced s s'" "reconnectAttempts s \<le> currentReconnectAttempts s"
  shows "currentReconnectAttempts s' = currentReconnectAttempts s \<and>
         reconnectAttempts s' = reconnectAttempts s \<and>
         nextTimer s' = nextTimer s \<and> reconnectsLogged s' = reconnectsLogged s \<and>
         timeouts s' \<subseteq> timeouts s"
proof -
  have c: "currentReconnectAttempts s' = currentReconnectAttempts s"
    using assms unfolding advanced_def by linarith
  have n: "nextTimer s' = nextTimer s" "reconnectsLogged s' = reconnectsLogged s"
    "reconnectAttempts s' = reconnectAttempts s"
    using assms(1) c unfolding advanced_def by simp_all
  have "timeouts s' \<subseteq> timeouts s \<union> {nextTimer s ..< nextTimer s'}"
    using assms(1) unfolding advanced_def by blast
  then have "timeouts s' \<subseteq> timeouts s" unfolding n by simp
  then show ?thesis using c n by blast
qed

subsection \<open>Sockets that are still connecting\<close>

lemma isConnecting_cong: "sockets s' = sockets s \<Longrightarrow> isConnecting s' w = isConnecting s w"
  by (simp add: isConnecting_def)

lemma sockets_prims:
  "sockets (logConsole c s) = sockets s"
  "sockets (stopHeartbeat s) = sockets s"
  "sockets (stopReconnect s) = sockets s"
  "sockets (reconnect s) = sockets s"
  "sockets (snd (wsSend w d s)) = sockets s"
  by (simp_all add: logConsole_def stopHeartbeat_def stopReconnect_def reconnect_def
      wsSend_def Let_def split: option.splits ready_state.splits)

lemma sockets_send: "sockets (snd (send d s)) = sockets s"
  by (simp add: send_def sockets_prims split: option.splits)

lemma sockets_handleMessage: "sockets (snd (handleMessage e d s)) = sockets s"
proof -
  obtain cs' where eq: "snd (handleMessage e d s) = s\<lparr>calls := cs'\<rparr>"
    using handleMessage_shape by blast
  show ?thesis unfolding eq by simp
qed

lemma sockets_handleError: "sockets (snd (handleError e s)) = sockets s"
proof -
  obtain cs' where eq: "snd (handleError e s) = (logConsole ErrorSocket s)\<lparr>calls := cs'\<rparr>"
    using handleError_shape by blast
  show ?thesis unfolding eq by (simp add: sockets_prims)
qed

lemma sockets_handleClose: "sockets (snd (handleClose e s)) = sockets s"
proof -
  let ?x = "stopHeartbeat (logConsole LogClosed s)"
  obtain cs' where eq: "snd (handleClose e s) =
      (if isManualClose s then ?x\<lparr>calls := cs'\<rparr> else reconnect (?x\<lparr>calls := cs'\<rparr>))
    \<or> snd (handleClose e s) = ?x\<lparr>calls := cs'\<rparr>"
    using handleClose_shape by blast
  have a: "sockets (?x\<lparr>calls := cs'\<rparr>) = sockets s" by (simp add: sockets_prims)
  have b: "sockets (reconnect (?x\<lparr>calls := cs'\<rparr>)) = sockets s" by (simp add: sockets_prims)
  from eq show ?thesis
  proof
    assume "snd (handleClose e s) =
      (if isManualClose s then ?x\<lparr>calls := cs'\<rparr> else reconnect (?x\<lparr>calls := cs'\<rparr>))"
    then show ?thesis using a b by (cases "isManualClose s") simp_all
  next
    assume "snd (handleClose e s) = ?x\<lparr>calls := cs'\<rparr>"
    then show ?thesis using a by simp
  qed
qed

lemma sockets_handlers:
  "sockets (onMessage h s) = sockets s" "sockets (offMessage h s) = sockets s"
  "sockets (onOpen h s) = sockets s" "sockets (offOpen h s) = sockets s"
  "sockets (onClose h s) = sockets s" "sockets (offClose h s) = sockets s"
  "sockets (onError h s) = sockets s" "sockets (offError h s) = sockets s"
  by (simp_all add: onMessage_def offMessage_def onOpen_def offOpen_def
      onClose_def offClose_def onError_def offError_def)

lemma isConnecting_setClosed: "isConnecting (setReadyState w CLOSED s) v \<Longrightarrow> isConnecting s v"
  by (auto simp: isConnecting_def setReadyState_def split: option.splits if_splits)

lemma isConnecting_wsClose: "isConnecting (wsClose w s) v \<Longrightarrow> isConnecting s v"
  by (auto simp: isConnecting_def wsClose_def split: option.splits if_splits)

lemma isConnecting_close: "isConnecting (close s) v \<Longrightarrow> isConnecting s v"
proof -
  let ?c = "stopReconnect (stopHeartbeat (s\<lparr>isManualClose := True\<rparr>))"
  have c: "sockets ?c = sockets s" by (simp add: sockets_prims)
  have k: "isConnecting ?c v = isConnecting s v" by (rule isConnecting_cong[OF c])
  assume a: "isConnecting (close s) v"
  show ?thesis
  proof (cases "ws ?c")
    case None
    have e: "close s = ?c" by (simp add: close_def Let_def None)
    from a have "isConnecting ?c v" unfolding e .
    then show ?thesis unfolding k .
  next
    case (Some w)
    have e: "close s = (wsClose w ?c)\<lparr>ws := None\<rparr>" by (simp add: close_def Let_def Some)
    from a have "isConnecting ((wsClose w ?c)\<lparr>ws := None\<rparr>) v" unfolding e .
    then have "isConnecting (wsClose w ?c) v" by (simp add: isConnecting_def)
    then have "isConnecting ?c v" by (rule isConnecting_wsClose)
    then show ?thesis unfolding k .
  qed
qed

lemma none_connecting:
  assumes "inv s" "connectingSockets s = []"
  shows "\<not> isConnecting s w"
proof
  assume a: "isConnecting s w"
  then have "sockets s w \<noteq> None" by (auto simp: isConnecting_def split: option.splits)
  moreover have "nextSocket s \<le> w \<longrightarrow> sockets s w = None"
    using assms(1) by (simp add: inv_def)
  ultimately have "w < nextSocket s" by (meson not_le)
  then have "w \<in> set (connectingSockets s)" using a by (simp add: connectingSockets_def)
  then show False using assms(2) by simp
qed

lemma stopped_client_step:
  assumes "\<forall>w. \<not> isConnecting s w" "timeouts s = {}"
    "reconnectAttempts s \<le> currentReconnectAttempts s" "\<not> isConnect ev"
  shows "(\<forall>w. \<not> isConnecting (step e ev s) w) \<and> advanced s (step e ev s)"
proof (cases ev)
  case Connect
  then show ?thesis using assms(4) by simp
next
  case (SocketOpened w)
  have n: "\<not> isConnecting s w" using assms(1) by simp
  have "step e (SocketOpened w) s = s"
  proof (cases "sockets s w")
    case None
    then show ?thesis by simp
  next
    case (Some t)
    then have "readyState t \<noteq> CONNECTING" using n by (simp add: isConnecting_def)
    then show ?thesis using Some by simp
  qed
  then show ?thesis using assms(1) SocketOpened by (simp only: advanced_refl simp_thms)
next
  case (TimeoutFired t)
  then have "step e ev s = s" using assms(2) by simp
  then show ?thesis using assms(1) by (simp only: advanced_refl simp_thms)
next
  case (SocketClosed w)
  have a: "advanced s (step e ev s)" by (rule advanced_step) (simp add: SocketClosed)
  have "\<not> isConnecting (setReadyState w CLOSED s) v" for v
    using assms(1) isConnecting_setClosed by blast
  then have "\<not> isConnecting (snd (handleClose e (setReadyState w CLOSED s))) v" for v
    using isConnecting_cong[OF sockets_handleClose] by simp
  then have "\<not> isConnecting (step e ev s) v" for v
    using SocketClosed assms(1) \<open>\<And>v. \<not> isConnecting (setReadyState w CLOSED s) v\<close>
    by (simp split: option.splits)
  then show ?thesis using a by simp
next
  case Close
  have "\<not> isConnecting (close s) v" for v using assms(1) isConnecting_close by blast
  then show ?thesis using Close by (simp add: advanced_close)
next
  case (Send d)
  then show ?thesis using assms(1) isConnecting_cong[OF sockets_send]
    by (simp add: advanced_send)
next
  case (SocketMessage w d)
  have a: "advanced s (step e ev s)" by (rule advanced_step) (simp add: SocketMessage)
  have "\<not> isConnecting (step e ev s) v" for v
    using SocketMessage assms(1) isConnecting_cong[OF sockets_handleMessage]
    by (simp split: option.splits)
  then show ?thesis using a by simp
next
  case (SocketError w)
  have a: "advanced s (step e ev s)" by (rule advanced_step) (simp add: SocketError)
  have "\<not> isConnecting (step e ev s) v" for v
    using SocketError assms(1) isConnecting_cong[OF sockets_handleError]
    by (simp split: option.splits)
  then show ?thesis using a by simp
next
  case (IntervalFired t)
  have a: "advanced s (step e ev s)" by (rule advanced_step) (simp add: IntervalFired)
  have "\<not> isConnecting (step e ev s) v" for v
    using IntervalFired assms(1) isConnecting_cong[OF sockets_send]
    by (simp add: heartbeatTick_def)
  then show ?thesis using a by simp
qed (use assms(1) in \<open>simp_all add: advanced_handlers isConnecting_cong[OF sockets_handlers(1)]
      isConnecting_cong[OF sockets_handlers(2)] isConnecting_cong[OF sockets_handlers(3)]
      isConnecting_cong[OF sockets_handlers(4)] isConnecting_cong[OF sockets_handlers(5)]
      isConnecting_cong[OF sockets_handlers(6)] isConnecting_cong[OF sockets_handlers(7)]
      isConnecting_cong[OF sockets_handlers(8)]\<close>)

lemma stopped_client_run:
  assumes "\<forall>w. \<not> isConnecting s w" "timeouts s = {}"
    "reconnectAttempts s \<le> currentReconnectAttempts s" "list_all (\<lambda>ev. \<not> isConnect ev) evs"
  shows "reconnectsLogged (run e evs s) = reconnectsLogged s \<and> timeouts (run e evs s) = {} \<and>
         reconnectAttempts (run e evs s) \<le> currentReconnectAttempts (run e evs s)"
  using assms
proof (induction evs arbitrary: s)
  case Nil
  then show ?case by simp
next
  case (Cons ev evs)
  have n: "\<not> isConnect ev" "list_all (\<lambda>ev. \<not> isConnect ev) evs" using Cons.prems(4) by simp_all
  from stopped_client_step[OF Cons.prems(1,2,3) n(1), of e]
  have a: "\<forall>w. \<not> isConnecting (step e ev s) w" and b: "advanced s (step e ev s)" by simp_all
  from advanced_exhausted[OF b Cons.prems(3)] Cons.prems(2,3)
  have c: "timeouts (step e ev s) = {}"
    "reconnectAttempts (step e ev s) \<le> currentReconnectAttempts (step e ev s)"
    "reconnectsLogged (step e ev s) = reconnectsLogged s" by simp_all
  from Cons.IH[OF a c(1) c(2) n(2)] c(3) show ?case by simp
qed

lemma handleOpen_resets: "currentReconnectAttempts (snd (handleOpen e s)) = 0"
proof -
  obtain cs' where eq: "snd (handleOpen e s) =
     (startHeartbeat ((logConsole LogConnected s)\<lparr>currentReconnectAttempts := 0\<rparr>))\<lparr>calls := cs'\<rparr>"
    using handleOpen_shape by blast
  show ?thesis unfolding eq by (simp add: startHeartbeat_keeps)
qed

text \<open>
  C6, as the code has it. The budget is counted on the console lines that announce a scheduled reconnect, each of
  which goes with exactly one timer identifier handed out. A lifecycle is a stretch of events
  between two transport open events, the only place where the attempt counter is reset.

  Over any events without an open event, from a state whose counter is within the ceiling,
  the reconnects scheduled are at most the ceiling minus the counter (at most the ceiling
  itself right after an open), each with its own timer. Once the counter has reached the
  ceiling, no events without an open event schedule anything: a further close, and even an
  explicit \<open>connect\<close> whose transport closes without opening, leave the timers, the counter
  and the console count as they are. In a reachable state that is exhausted and has no
  pending reconnect timer and no transport still connecting, nothing is scheduled over any
  events that do not contain an explicit \<open>connect\<close>. \<open>handleOpen\<close> always sets the counter to 0,
  and so does the open event of a connecting transport.
\<close>

theorem reconnect_attempts_bounded_by_ceiling:
  "(list_all (\<lambda>ev. \<not> isSocketOpened ev) evs \<and>
      currentReconnectAttempts s \<le> reconnectAttempts s \<longrightarrow>
      int (reconnectsLogged (run e evs s)) - int (reconnectsLogged s)
        \<le> reconnectAttempts s - currentReconnectAttempts s \<and>
      int (nextTimer (run e evs s)) - int (nextTimer s)
        = int (reconnectsLogged (run e evs s)) - int (reconnectsLogged s) \<and>
      timeouts (run e evs s) \<subseteq> timeouts s \<union> {nextTimer s ..< nextTimer (run e evs s)}) \<and>
   (list_all (\<lambda>ev. \<not> isSocketOpened ev) evs \<and>
      reconnectAttempts s \<le> currentReconnectAttempts s \<longrightarrow>
      reconnectsLogged (run e evs s) = reconnectsLogged s \<and>
      nextTimer (run e evs s) = nextTimer s \<and>
      timeouts (run e evs s) \<subseteq> timeouts s \<and>
      currentReconnectAttempts (run e evs s) = currentReconnectAttempts s \<and>
      reconnectAttempts (run e evs s) = reconnectAttempts s) \<and>
   (s = run e evs0 (SocketClient opts) \<and>
      reconnectAttempts s \<le> currentReconnectAttempts s \<and>
      timeouts s = {} \<and> connectingSockets s = [] \<and>
      list_all (\<lambda>ev. \<not> isConnect ev) evs \<longrightarrow>
      reconnectsLogged (run e evs s) = reconnectsLogged s \<and>
      timeouts (run e evs s) = {} \<and>
      reconnectAttempts (run e evs s) \<le> currentReconnectAttempts (run e evs s)) \<and>
   currentReconnectAttempts (snd (handleOpen e s)) = 0 \<and>
   (sockets s w = Some t \<and> readyState t = CONNECTING \<and> callbacksBound t \<longrightarrow>
      currentReconnectAttempts (step e (SocketOpened w) s) = 0)"
proof (intro conjI impI)
  assume h: "list_all (\<lambda>ev. \<not> isSocketOpened ev) evs \<and>
      currentReconnectAttempts s \<le> reconnectAttempts s"
  then have a: "advanced s (run e evs s)" by (simp add: advanced_run)
  show "int (reconnectsLogged (run e evs s)) - int (reconnectsLogged s)
        \<le> reconnectAttempts s - currentReconnectAttempts s"
    using a h unfolding advanced_def by linarith
  show "int (nextTimer (run e evs s)) - int (nextTimer s)
        = int (reconnectsLogged (run e evs s)) - int (reconnectsLogged s)"
    using a unfolding advanced_def by linarith
  show "timeouts (run e evs s) \<subseteq> timeouts s \<union> {nextTimer s ..< nextTimer (run e evs s)}"
    using a unfolding advanced_def by blast
next
  assume h: "list_all (\<lambda>ev. \<not> isSocketOpened ev) evs \<and>
      reconnectAttempts s \<le> currentReconnectAttempts s"
  then have a: "advanced s (run e evs s)" by (simp add: advanced_run)
  have x: "reconnectAttempts s \<le> currentReconnectAttempts s" using h by simp
  note r = advanced_exhausted[OF a x]
  show "reconnectsLogged (run e evs s) = reconnectsLogged s" using r by simp
  show "nextTimer (run e evs s) = nextTimer s" using r by simp
  show "timeouts (run e evs s) \<subseteq> timeouts s" using r by simp
  show "currentReconnectAttempts (run e evs s) = currentReconnectAttempts s" using r by simp
  show "reconnectAttempts (run e evs s) = reconnectAttempts s" using r by simp
next
  assume h: "s = run e evs0 (SocketClient opts) \<and>
      reconnectAttempts s \<le> currentReconnectAttempts s \<and>
      timeouts s = {} \<and> connectingSockets s = [] \<and>
      list_all (\<lambda>ev. \<not> isConnect ev) evs"
  from h have r: "s = run e evs0 (SocketClient opts)" by (elim conjE)
  from h have x: "reconnectAttempts s \<le> currentReconnectAttempts s" by (elim conjE)
  from h have t: "timeouts s = {}" by (elim conjE)
  from h have c: "connectingSockets s = []" by (elim conjE)
  from h have l: "list_all (\<lambda>ev. \<not> isConnect ev) evs" by (elim conjE)
  have i: "inv s" unfolding r by (rule inv_reachable)
  have n: "\<forall>w. \<not> isConnecting s w" using none_connecting[OF i c] by simp
  note r = stopped_client_run[OF n t x l, of e]
  show "reconnectsLogged (run e evs s) = reconnectsLogged s" using r by simp
  show "timeouts (run e evs s) = {}" using r by simp
  show "reconnectAttempts (run e evs s) \<le> currentReconnectAttempts (run e evs s)" using r by simp
next
  show "currentReconnectAttempts (snd (handleOpen e s)) = 0" by (rule handleOpen_resets)
next
  assume "sockets s w = Some t \<and> readyState t = CONNECTING \<and> callbacksBound t"
  then show "currentReconnectAttempts (step e (SocketOpened w) s) = 0"
    by (simp add: handleOpen_resets)
qed

theorem reconnect_attempts_bounded_by_ceiling_witness:
  "reconnectAttempts (SocketClient (exampleOptions\<lparr>opt_reconnectAttempts := Some 2\<rparr>)) = 2 \<and>
   currentReconnectAttempts (SocketClient (exampleOptions\<lparr>opt_reconnectAttempts := Some 2\<rparr>)) = 0 \<and>
   reconnectsLogged (SocketClient (exampleOptions\<lparr>opt_reconnectAttempts := Some 2\<rparr>)) = 0 \<and>
   reconnectsLogged (run quietEnv
      [Connect, SocketClosed 0, TimeoutFired 1, SocketClosed 1, TimeoutFired 2, SocketClosed 2]
      (SocketClient (exampleOptions\<lparr>opt_reconnectAttempts := Some 2\<rparr>))) = 2 \<and>
   int (reconnectsLogged (run quietEnv
      [Connect, SocketClosed 0, TimeoutFired 1, SocketClosed 1, TimeoutFired 2, SocketClosed 2]
      (SocketClient (exampleOptions\<lparr>opt_reconnectAttempts := Some 2\<rparr>)))) \<le> 2 \<and>
   currentReconnectAttempts (run quietEnv
      [Connect, SocketClosed 0, TimeoutFired 1, SocketClosed 1, TimeoutFired 2, SocketClosed 2]
      (SocketClient (exampleOptions\<lparr>opt_reconnectAttempts := Some 2\<rparr>))) = 2 \<and>
   timeouts (run quietEnv
      [Connect, SocketClosed 0, TimeoutFired 1, SocketClosed 1, TimeoutFired 2, SocketClosed 2]
      (SocketClient (exampleOptions\<lparr>opt_reconnectAttempts := Some 2\<rparr>))) = {} \<and>
   connectingSockets (run quietEnv
      [Connect, SocketClosed 0, TimeoutFired 1, SocketClosed 1, TimeoutFired 2, SocketClosed 2]
      (SocketClient (exampleOptions\<lparr>opt_reconnectAttempts := Some 2\<rparr>))) = [] \<and>
   reconnectsLogged (run quietEnv [Connect, SocketClosed 3] (run quietEnv
      [Connect, SocketClosed 0, TimeoutFired 1, SocketClosed 1, TimeoutFired 2, SocketClosed 2]
      (SocketClient (exampleOptions\<lparr>opt_reconnectAttempts := Some 2\<rparr>)))) = 2 \<and>
   timeouts (run quietEnv [SocketError 2, Send (Text ''x''), Close, SocketClosed 2] (run quietEnv
      [Connect, SocketClosed 0, TimeoutFired 1, SocketClosed 1, TimeoutFired 2, SocketClosed 2]
      (SocketClient (exampleOptions\<lparr>opt_reconnectAttempts := Some 2\<rparr>)))) = {} \<and>
   sockets (run quietEnv [Connect, SocketClosed 0, TimeoutFired 1]
      (SocketClient (exampleOptions\<lparr>opt_reconnectAttempts := Some 2\<rparr>))) 1
     = Some \<lparr>readyState = CONNECTING, callbacksBound = True\<rparr> \<and>
   currentReconnectAttempts (run quietEnv [Connect, SocketClosed 0, TimeoutFired 1]
      (SocketClient (exampleOptions\<lparr>opt_reconnectAttempts := Some 2\<rparr>))) = 1 \<and>
   currentReconnectAttempts (step quietEnv (SocketOpened 1)
     (run quietEnv [Connect, SocketClosed 0, TimeoutFired 1]
      (SocketClient (exampleOptions\<lparr>opt_reconnectAttempts := Some 2\<rparr>)))) = 0"
proof -
  define o2 where "o2 = exampleOptions\<lparr>opt_reconnectAttempts := Some 2\<rparr>"
  define s0 where "s0 = SocketClient o2"
  define evsA where "evsA =
    [Connect, SocketClosed 0, TimeoutFired 1, SocketClosed 1, TimeoutFired 2, SocketClosed 2]"
  define sx where "sx = run quietEnv evsA s0"
  define s1 where "s1 = run quietEnv [Connect, SocketClosed 0, TimeoutFired 1] s0"
  define t where "t = \<lparr>readyState = CONNECTING, callbacksBound = True\<rparr>"
  have rx: "sx = run quietEnv evsA (SocketClient o2)" unfolding sx_def s0_def ..
  have n0: "reconnectAttempts s0 = 2" unfolding s0_def o2_def by code_simp
  have c0: "currentReconnectAttempts s0 = 0" unfolding s0_def o2_def by code_simp
  have l0: "reconnectsLogged s0 = 0" unfolding s0_def o2_def by code_simp
  have lx: "reconnectsLogged sx = 2" unfolding sx_def evsA_def s0_def o2_def by code_simp
  have cx: "currentReconnectAttempts sx = 2" unfolding sx_def evsA_def s0_def o2_def by code_simp
  have nx: "reconnectAttempts sx = 2" unfolding sx_def evsA_def s0_def o2_def by code_simp
  have tx: "timeouts sx = {}" unfolding sx_def evsA_def s0_def o2_def by code_simp
  have kx: "connectingSockets sx = []" unfolding sx_def evsA_def s0_def o2_def by code_simp
  have k1: "sockets s1 1 = Some t" unfolding s1_def s0_def o2_def t_def by code_simp
  have c1: "currentReconnectAttempts s1 = 1" unfolding s1_def s0_def o2_def by code_simp
  have t1: "readyState t = CONNECTING" "callbacksBound t" by (simp_all add: t_def)
  have la: "list_all (\<lambda>ev. \<not> isSocketOpened ev) evsA" by (simp add: evsA_def)
  have lb: "list_all (\<lambda>ev. \<not> isSocketOpened ev) [Connect, SocketClosed 3]" by simp
  have lc: "list_all (\<lambda>ev. \<not> isConnect ev) [SocketError 2, Send (Text ''x''), Close, SocketClosed 2]"
    by simp
  have h1: "list_all (\<lambda>ev. \<not> isSocketOpened ev) evsA \<and>
      currentReconnectAttempts s0 \<le> reconnectAttempts s0" using la n0 c0 by simp
  from reconnect_attempts_bounded_by_ceiling[where s=s0 and evs=evsA and e=quietEnv,
      THEN conjunct1, rule_format, OF h1, THEN conjunct1]
  have 1: "int (reconnectsLogged sx) \<le> 2" unfolding sx_def[symmetric] using n0 c0 l0 by simp
  have h2: "list_all (\<lambda>ev. \<not> isSocketOpened ev) [Connect, SocketClosed 3] \<and>
      reconnectAttempts sx \<le> currentReconnectAttempts sx" using lb nx cx by simp
  from reconnect_attempts_bounded_by_ceiling[where s=sx and evs="[Connect, SocketClosed 3]"
      and e=quietEnv, THEN conjunct2, THEN conjunct1, rule_format, OF h2, THEN conjunct1]
  have 2: "reconnectsLogged (run quietEnv [Connect, SocketClosed 3] sx) = 2" using lx by simp
  have h3: "sx = run quietEnv evsA (SocketClient o2) \<and>
      reconnectAttempts sx \<le> currentReconnectAttempts sx \<and>
      timeouts sx = {} \<and> connectingSockets sx = [] \<and>
      list_all (\<lambda>ev. \<not> isConnect ev) [SocketError 2, Send (Text ''x''), Close, SocketClosed 2]"
    by (intro conjI) (rule rx, simp add: nx cx, rule tx, rule kx, rule lc)
  from reconnect_attempts_bounded_by_ceiling[where s=sx
      and evs="[SocketError 2, Send (Text ''x''), Close, SocketClosed 2]"
      and e=quietEnv and ?evs0.0=evsA and opts=o2,
      THEN conjunct2, THEN conjunct2, THEN conjunct1, rule_format, OF h3,
      THEN conjunct2, THEN conjunct1]
  have 3: "timeouts (run quietEnv [SocketError 2, Send (Text ''x''), Close, SocketClosed 2] sx) = {}" .
  have h4: "sockets s1 1 = Some t \<and> readyState t = CONNECTING \<and> callbacksBound t"
    using k1 t1 by simp
  from reconnect_attempts_bounded_by_ceiling[where s=s1 and e=quietEnv and w=1 and t=t,
      THEN conjunct2, THEN conjunct2, THEN conjunct2, THEN conjunct2, rule_format, OF h4]
  have 4: "currentReconnectAttempts (step quietEnv (SocketOpened 1) s1) = 0" .
  show ?thesis
    using n0 c0 l0 lx 1 cx tx kx 2 3 k1 c1 4
    unfolding sx_def s1_def evsA_def s0_def o2_def t_def by blast
qed

text \<open>
  C6 as stated fails. With the ceiling 1, \<open>connect\<close> is called twice before the first
  transport has opened. The close of transport 0 schedules the one reconnect allowed (timer
  1), and the close of transport 1 reports that the limit is reached. No \<open>connect\<close> is called
  from then on; timer 1 fires and makes transport 2, which opens and resets the counter, and
  when transport 2 closes a second reconnect is scheduled (timer 3).
\<close>

theorem reconnect_after_exhaustion_without_connect:
  "reconnectAttempts (SocketClient (exampleOptions\<lparr>opt_reconnectAttempts := Some 1\<rparr>)) = 1 \<and>
   console (run quietEnv [Connect, Connect, SocketClosed 0, SocketClosed 1]
      (SocketClient (exampleOptions\<lparr>opt_reconnectAttempts := Some 1\<rparr>)))
     = [LogClosed, LogReconnecting 1, LogClosed, ErrorReconnectLimit] \<and>
   timeouts (run quietEnv [Connect, Connect, SocketClosed 0, SocketClosed 1]
      (SocketClient (exampleOptions\<lparr>opt_reconnectAttempts := Some 1\<rparr>))) = {1} \<and>
   list_all (\<lambda>ev. \<not> isConnect ev) [TimeoutFired 1, SocketOpened 2, SocketClosed 2] \<and>
   console (run quietEnv [TimeoutFired 1, SocketOpened 2, SocketClosed 2]
      (run quietEnv [Connect, Connect, SocketClosed 0, SocketClosed 1]
        (SocketClient (exampleOptions\<lparr>opt_reconnectAttempts := Some 1\<rparr>))))
     = [LogClosed, LogReconnecting 1, LogClosed, ErrorReconnectLimit,
        LogConnected, LogClosed, LogReconnecting 1] \<and>
   timeouts (run quietEnv [TimeoutFired 1, SocketOpened 2, SocketClosed 2]
      (run quietEnv [Connect, Connect, SocketClosed 0, SocketClosed 1]
        (SocketClient (exampleOptions\<lparr>opt_reconnectAttempts := Some 1\<rparr>)))) = {3} \<and>
   reconnectsLogged (run quietEnv [TimeoutFired 1, SocketOpened 2, SocketClosed 2]
      (run quietEnv [Connect, Connect, SocketClosed 0, SocketClosed 1]
        (SocketClient (exampleOptions\<lparr>opt_reconnectAttempts := Some 1\<rparr>)))) = 2"
  by code_simp

end
